theory Spec2Isabelle
  imports Complex_Main
begin

section \<open>Python primitives used by harvey.py\<close>

text \<open>
  Python floats are modelled as \<^typ>\<open>real\<close> and Python ints as \<^typ>\<open>int\<close>.
  \<open>round\<close> on a float is round-half-to-even; \<open>int\<close> on a float truncates towards zero.
\<close>

definition py_round :: "real \<Rightarrow> int" where
  "py_round r =
     (let f = \<lfloor>r\<rfloor>; d = r - of_int f
      in if d < 1 / 2 then f else if 1 / 2 < d then f + 1 else if even f then f else f + 1)"

definition py_int :: "real \<Rightarrow> int" where
  "py_int r = (if 0 \<le> r then \<lfloor>r\<rfloor> else \<lceil>r\<rceil>)"

section \<open>Screen geometry and the ratio-to-point conversion\<close>

text \<open>
  What Quartz reports for the main display: the bounds (points) and, when a display mode is
  available, its pixel size. \<open>None\<close> for the whole display stands for \<open>_QUARTZ_AVAILABLE = False\<close>.
\<close>

record display =
  bounds_width :: real
  bounds_height :: real
  mode :: "(int \<times> int) option"

definition get_screen_info :: "display option \<Rightarrow> int \<times> int \<times> real" where
  "get_screen_info quartz =
     (case quartz of
        Some d \<Rightarrow>
          (let logical_width = py_int (bounds_width d);
               logical_height = py_int (bounds_height d);
               pixel_width = (case mode d of Some (pw, ph) \<Rightarrow> pw | None \<Rightarrow> logical_width);
               pixel_height = (case mode d of Some (pw, ph) \<Rightarrow> ph | None \<Rightarrow> logical_height);
               scale = (if logical_width \<noteq> 0
                        then real_of_int pixel_width / real_of_int logical_width else 1)
           in (logical_width, logical_height, scale))
      | None \<Rightarrow> (1920, 1080, 1))"

definition clamp_ratio :: "real \<Rightarrow> real" where
  "clamp_ratio r = max 0 (min 1 r)"

definition transform_coords :: "display option \<Rightarrow> real \<Rightarrow> real \<Rightarrow> int \<times> int" where
  "transform_coords quartz x_ratio y_ratio =
     (case get_screen_info quartz of
        (width, height, scale) \<Rightarrow>
          (let xr = clamp_ratio x_ratio;
               yr = clamp_ratio y_ratio;
               x = py_round (xr * real_of_int (width - 1));
               y = py_round (yr * real_of_int (height - 1))
           in (x, y)))"


section \<open>The motion controller\<close>

text \<open>
  \<open>smooth_move_mouse\<close> posts one mouse-moved event per loop iteration; the model returns the
  posted points in order. The sleeps between posts and the advisory trail are left out.
  \<open>math.sqrt\<close> is the real square root and \<open>0.1\<close> the real 1/10. For integer
  coordinates the test \<open>distance < 5\<close> and the points at \<open>i = 0\<close> and \<open>i = steps\<close>
  (where \<open>t\<close> is exactly 0 and 1) come out in floating point as they do here; the points
  in between may differ from the code's by rounding.
\<close>

definition distance :: "int \<Rightarrow> int \<Rightarrow> int \<Rightarrow> int \<Rightarrow> real" where
  "distance start_x start_y end_x end_y =
     sqrt (real_of_int ((end_x - start_x)\<^sup>2 + (end_y - start_y)\<^sup>2))"

definition move_point :: "int \<Rightarrow> int \<Rightarrow> int \<Rightarrow> int \<Rightarrow> int \<Rightarrow> int \<Rightarrow> int \<times> int" where
  "move_point start_x start_y end_x end_y steps i =
     (let t = real_of_int i / real_of_int steps;
          t_smooth = t * t * (3 - 2 * t);
          control_x = real_of_int (start_x + end_x) / 2 + real_of_int (end_y - start_y) * (1 / 10);
          control_y = real_of_int (start_y + end_y) / 2 - real_of_int (end_x - start_x) * (1 / 10);
          x = py_int ((1 - t_smooth)\<^sup>2 * real_of_int start_x
                      + 2 * (1 - t_smooth) * t_smooth * control_x
                      + t_smooth\<^sup>2 * real_of_int end_x);
          y = py_int ((1 - t_smooth)\<^sup>2 * real_of_int start_y
                      + 2 * (1 - t_smooth) * t_smooth * control_y
                      + t_smooth\<^sup>2 * real_of_int end_y)
      in (x, y))"

definition smooth_move_mouse :: "bool \<Rightarrow> int \<Rightarrow> int \<Rightarrow> int \<Rightarrow> int \<Rightarrow> (int \<times> int) list" where
  "smooth_move_mouse quartz_available start_x start_y end_x end_y =
     (if \<not> quartz_available then []
      else if distance start_x start_y end_x end_y < 5 then []
      else (let steps = max 10 (py_int (distance start_x start_y end_x end_y / 15))
            in map (move_point start_x start_y end_x end_y steps) [0..steps]))"

section \<open>Strings\<close>

text \<open>
  Python \<open>str\<close> values are modelled as \<^typ>\<open>string\<close>, restricted to ASCII:
  \<open>strip\<close> removes ASCII whitespace, \<open>lower\<close> maps A-Z, and \<open>\d\<close> is 0-9.
\<close>

definition dq :: char where
  "dq = CHR 0x22"

definition is_space :: "char \<Rightarrow> bool" where
  "is_space c = (c \<in> set [CHR 0x09, CHR 0x0A, CHR 0x0B, CHR 0x0C, CHR 0x0D,
                            CHR 0x1C, CHR 0x1D, CHR 0x1E, CHR 0x1F, CHR 0x20])"

definition is_digit :: "char \<Rightarrow> bool" where
  "is_digit c = (c \<in> set ''0123456789'')"

definition strip :: "string \<Rightarrow> string" where
  "strip s = rev (dropWhile is_space (rev (dropWhile is_space s)))"

definition lower_char :: "char \<Rightarrow> char" where
  "lower_char c =
     (case map_of (zip ''ABCDEFGHIJKLMNOPQRSTUVWXYZ'' ''abcdefghijklmnopqrstuvwxyz'') c of
        Some l \<Rightarrow> l
      | None \<Rightarrow> c)"

definition lower :: "string \<Rightarrow> string" where
  "lower s = map lower_char s"

fun startswith :: "string \<Rightarrow> string \<Rightarrow> bool" where
  "startswith s [] = True"
| "startswith [] (p # ps) = False"
| "startswith (c # cs) (p # ps) = (c = p \<and> startswith cs ps)"

text \<open>\<open>contains s sub\<close> is Python's \<open>sub in s\<close>.\<close>

fun contains :: "string \<Rightarrow> string \<Rightarrow> bool" where
  "contains [] sub = (sub = [])"
| "contains (c # cs) sub = (startswith (c # cs) sub \<or> contains cs sub)"

fun split_on :: "char \<Rightarrow> string \<Rightarrow> string list" where
  "split_on sep [] = [[]]"
| "split_on sep (c # cs) =
     (if c = sep then [] # split_on sep cs
      else (case split_on sep cs of l # ls \<Rightarrow> (c # l) # ls | [] \<Rightarrow> [[c]]))"

definition digit_val :: "char \<Rightarrow> nat" where
  "digit_val c = of_char c - 48"

definition nat_of_digits :: "string \<Rightarrow> nat" where
  "nat_of_digits ds = foldl (\<lambda>acc c. 10 * acc + digit_val c) 0 ds"

definition digit_char :: "nat \<Rightarrow> char" where
  "digit_char d = ''0123456789'' ! d"

fun digits_of :: "nat \<Rightarrow> string" where
  "digits_of n = (if n < 10 then [digit_char n] else digits_of (n div 10) @ [digit_char (n mod 10)])"

declare digits_of.simps [simp del]

text \<open>\<open>str\<close> of a Python int.\<close>

definition str_int :: "int \<Rightarrow> string" where
  "str_int i = (if i < 0 then CHR ''-'' # digits_of (nat (- i)) else digits_of (nat i))"

text \<open>
  \<open>float\<close> of a string: surrounding whitespace, an optional sign, then digits with at most one
  decimal point and at least one digit. \<open>None\<close> is the \<open>ValueError\<close>. Exponents, \<open>inf\<close>,
  \<open>nan\<close> and digit-group underscores, which Python also accepts, are outside this model.
\<close>

definition float_body :: "string \<Rightarrow> real option" where
  "float_body u =
     (let ip = takeWhile is_digit u;
          r = dropWhile is_digit u
      in (case r of
            [] \<Rightarrow> if ip = [] then None else Some (real (nat_of_digits ip))
          | c # fr \<Rightarrow>
              if c = CHR ''.'' \<and> list_all is_digit fr \<and> (ip \<noteq> [] \<or> fr \<noteq> [])
              then Some (real (nat_of_digits ip) + real (nat_of_digits fr) / 10 ^ length fr)
              else None))"

definition py_float :: "string \<Rightarrow> real option" where
  "py_float s =
     (case strip s of
        [] \<Rightarrow> None
      | c # r \<Rightarrow>
          if c = CHR ''-'' then map_option uminus (float_body r)
          else if c = CHR ''+'' then float_body r
          else float_body (c # r))"

section \<open>Calibration offsets\<close>

text \<open>
  \<open>os.getenv(key, default)\<close> over the process environment, a map from names to values.
\<close>

definition getenv :: "(string \<rightharpoonup> string) \<Rightarrow> string \<Rightarrow> string \<Rightarrow> string" where
  "getenv env key dflt = (case env key of Some v \<Rightarrow> v | None \<Rightarrow> dflt)"

text \<open>
  Both \<open>float\<close> conversions sit in one \<open>try\<close>: when either fails, both offsets are zero.
\<close>

definition calibrate_click_position :: "(string \<rightharpoonup> string) \<Rightarrow> int \<Rightarrow> int \<Rightarrow> int \<times> int" where
  "calibrate_click_position env x y =
     (let offsets =
            (case py_float (getenv env ''HARVEY_X_OFFSET'' ''0'') of
               None \<Rightarrow> (0, 0)
             | Some ox \<Rightarrow>
                 (case py_float (getenv env ''HARVEY_Y_OFFSET'' ''0'') of
                    None \<Rightarrow> (0, 0)
                  | Some oy \<Rightarrow> (ox, oy)));
          offset_x = fst offsets;
          offset_y = snd offsets
      in (py_int (real_of_int x + offset_x), py_int (real_of_int y + offset_y)))"

text \<open>
  The \<open>.env\<close> file is modelled as the list of its lines, as \<open>read_text().splitlines()\<close>
  yields them and as \<open>"\n".join(lines) + "\n"\<close> writes them back; \<open>None\<close> is a file that
  does not exist. \<open>set_or_replace\<close> replaces the first line that, stripped, starts with
  \<open>key=\<close>, and appends when there is none.
\<close>

fun set_or_replace :: "string list \<Rightarrow> string \<Rightarrow> string \<Rightarrow> string list" where
  "set_or_replace [] key v = [key @ ''='' @ v]"
| "set_or_replace (line # lines) key v =
     (if startswith (strip line) (key @ ''='') then (key @ ''='' @ v) # lines
      else line # set_or_replace lines key v)"

text \<open>
  \<open>_write_env_offsets\<close>: the flag \<open>io_ok\<close> is whether reading and writing the file succeed;
  when they do not, the exception is caught, \<open>False\<close> is returned and the file is as before.
\<close>

definition write_env_offsets ::
  "bool \<Rightarrow> string list option \<Rightarrow> int \<Rightarrow> int \<Rightarrow> bool \<times> string list option" where
  "write_env_offsets io_ok file offset_x offset_y =
     (if \<not> io_ok then (False, file)
      else
        (let lines0 = (case file of Some ls \<Rightarrow> ls | None \<Rightarrow> []);
             lines1 = set_or_replace lines0 ''HARVEY_X_OFFSET'' (str_int offset_x);
             lines2 = set_or_replace lines1 ''HARVEY_Y_OFFSET'' (str_int offset_y)
         in (True, Some lines2)))"

text \<open>
  Modelled from the spec: the loader that turns the persisted config into the process
  environment on start-up (\<open>load_dotenv()\<close> in \<open>main\<close>) belongs to the python-dotenv
  package, which is not under src/. The spec describes the file as line-oriented
  \<open>KEY=value\<close> pairs. As in that package, the pairs are collected in file order into a
  dictionary, so a later line for a key replaces an earlier one, and a variable that the
  process environment already has is not overridden. Quoting, comments, \<open>export\<close> prefixes
  and blanks around the key are not modelled.
\<close>

definition dotenv_values :: "string list \<Rightarrow> string \<Rightarrow> string option" where
  "dotenv_values lines key =
     (case filter (\<lambda>l. startswith (strip l) (key @ ''='')) lines of
        [] \<Rightarrow> None
      | b # bs \<Rightarrow> Some (drop (length key + 1) (strip (last (b # bs)))))"

definition load_dotenv ::
  "(string \<rightharpoonup> string) \<Rightarrow> string list option \<Rightarrow> (string \<rightharpoonup> string)" where
  "load_dotenv env file key =
     (case env key of
        Some v \<Rightarrow> Some v
      | None \<Rightarrow> (case file of Some lines \<Rightarrow> dotenv_values lines key | None \<Rightarrow> None))"

section \<open>Click entry points\<close>

text \<open>
  The world a click runs in: the display Quartz reports (\<open>None\<close> when Quartz is not
  available), the process environment, the output of the frontmost-process query
  (\<open>None\<close> when the subprocess fails), and what the successive calls of
  \<open>get_current_mouse_position\<close> return.
\<close>

record world =
  quartz :: "display option"
  environ :: "string \<rightharpoonup> string"
  frontmost :: "string option"
  pointer :: "nat \<Rightarrow> int \<times> int"

text \<open>
  What a click entry point does, in order: the calls it makes to the helpers and the mouse
  events it posts. \<open>SmoothMove\<close> marks a call of \<open>smooth_move_mouse\<close>; the \<open>MouseMoved\<close>
  events that follow it are the points that call posts. Console output is left out, and
  posting an event is taken to succeed (the source catches and logs a failure). Without
  Quartz a click only prints the simulated point.
\<close>

datatype effect =
    IsSpotlightActive
  | Hotkey string
  | GetMousePosition
  | SmoothMove int int int int
  | MouseMoved int int
  | Sleep real
  | LeftMouseDown int int
  | LeftMouseUp int int

definition is_spotlight_active :: "world \<Rightarrow> bool" where
  "is_spotlight_active w =
     (case frontmost w of
        None \<Rightarrow> False
      | Some out \<Rightarrow> (let f = strip out in f = ''Spotlight'' \<or> contains f ''Spotlight''))"

text \<open>
  A call of \<open>smooth_move_mouse\<close> from a click entry point, where Quartz is available:
  the call and the move events it posts.
\<close>

definition move_effects :: "int \<Rightarrow> int \<Rightarrow> int \<Rightarrow> int \<Rightarrow> effect list" where
  "move_effects start_x start_y end_x end_y =
     SmoothMove start_x start_y end_x end_y
       # map (\<lambda>p. MouseMoved (fst p) (snd p))
           (smooth_move_mouse True start_x start_y end_x end_y)"

definition ultra_precise_click :: "world \<Rightarrow> real \<Rightarrow> real \<Rightarrow> effect list" where
  "ultra_precise_click w x_ratio y_ratio =
     (if quartz w = None then []
      else if is_spotlight_active w then [IsSpotlightActive, Hotkey ''return'']
      else
        (case transform_coords (quartz w) x_ratio y_ratio of (x0, y0) \<Rightarrow>
         case calibrate_click_position (environ w) x0 y0 of (x, y) \<Rightarrow>
         case pointer w 0 of (current_x, current_y) \<Rightarrow>
         case pointer w 1 of (final_x, final_y) \<Rightarrow>
         case pointer w 2 of (click_x, click_y) \<Rightarrow>
           [IsSpotlightActive, GetMousePosition]
           @ move_effects current_x current_y x y
           @ [Sleep (15 / 100), GetMousePosition]
           @ (if 5 < \<bar>final_x - x\<bar> \<or> 5 < \<bar>final_y - y\<bar>
              then move_effects final_x final_y x y @ [Sleep (5 / 100)] else [])
           @ [GetMousePosition, LeftMouseDown click_x click_y, Sleep (5 / 100),
              LeftMouseUp click_x click_y]))"


definition double_click :: "world \<Rightarrow> real \<Rightarrow> real \<Rightarrow> effect list" where
  "double_click w x_ratio y_ratio =
     (if quartz w = None then []
      else
        (case transform_coords (quartz w) x_ratio y_ratio of (x0, y0) \<Rightarrow>
         case calibrate_click_position (environ w) x0 y0 of (x, y) \<Rightarrow>
         case pointer w 0 of (current_x, current_y) \<Rightarrow>
         case pointer w 1 of (final_x, final_y) \<Rightarrow>
           [GetMousePosition]
           @ move_effects current_x current_y x y
           @ [Sleep (2 / 10), GetMousePosition]
           @ (if 2 < \<bar>final_x - x\<bar> \<or> 2 < \<bar>final_y - y\<bar>
              then move_effects final_x final_y x y @ [Sleep (1 / 10)] else [])
           @ concat (replicate 2
               [LeftMouseDown x y, Sleep (5 / 100), LeftMouseUp x y, Sleep (1 / 10)])))"

text \<open>
  The calls of the motion controller among the effects, the move events posted, the
  mouse-button events and the key presses.
\<close>

fun is_move :: "effect \<Rightarrow> bool" where
  "is_move (SmoothMove a b c d) = True"
| "is_move e = False"


fun is_button :: "effect \<Rightarrow> bool" where
  "is_button (LeftMouseDown x y) = True"
| "is_button (LeftMouseUp x y) = True"
| "is_button e = False"

fun is_key :: "effect \<Rightarrow> bool" where
  "is_key (Hotkey k) = True"
| "is_key e = False"

section \<open>The planner: reply parsing and the rate-limit fallback\<close>

text \<open>
  The loop over the lines of the reply. The state is \<open>(see_line, think_line, action)\<close>; a
  \<open>break\<close> returns the state at once. The bold \<open>Think\<close> label is cut after 9 characters,
  as in the source.
\<close>

definition fallback_cmds :: "string list" where
  "fallback_cmds =
     [''left_click'', ''type_text'', ''bulk_type'', ''hotkey'', ''done'', ''wait'', ''scroll'']"

fun parse_lines :: "string \<times> string \<times> string \<Rightarrow> string list \<Rightarrow> string \<times> string \<times> string" where
  "parse_lines st [] = st"
| "parse_lines (see_line, think_line, action) (raw # rest) =
     (let line = strip raw in
      if startswith line ''See:'' then
        parse_lines (strip (drop 4 line), think_line, action) rest
      else if startswith line ''Think:'' then
        parse_lines (see_line, strip (drop 6 line), action) rest
      else if startswith line ''Action:'' then
        (see_line, think_line, strip (drop 7 line))
      else if startswith line ''**See:**'' then
        parse_lines (strip (drop 8 line), think_line, action) rest
      else if startswith line ''**Think:**'' then
        parse_lines (see_line, strip (drop 9 line), action) rest
      else if startswith line ''**Action:**'' then
        (see_line, think_line, strip (drop 11 line))
      else if see_line = [] \<and> think_line = [] \<and> action = [] \<and> line \<noteq> []
              \<and> \<not> startswith line ''**'' then
        (if list_ex (\<lambda>cmd. contains line cmd) fallback_cmds
         then (see_line, think_line, line)
         else parse_lines (see_line, think_line, action) rest)
      else parse_lines (see_line, think_line, action) rest)"

definition clean_action :: "string \<Rightarrow> string" where
  "clean_action action =
     (if action \<noteq> [] then strip (filter (\<lambda>c. c \<noteq> CHR 0x60) action) else action)"

definition think_reply :: "string \<Rightarrow> string" where
  "think_reply text =
     (let response_text = strip text;
          lines = split_on (CHR 0x0A) response_text;
          action = clean_action (snd (snd (parse_lines ([], [], []) lines)))
      in if action \<noteq> [] then action else ''wait(1000)'')"

text \<open>
  The search for \<open>Please retry in (\d+\.?\d*)s\<close>. After the longest run of digits, an
  optional point and the longest run of digits again, the next character must be \<open>s\<close>;
  giving characters back cannot make a failed attempt succeed, so one attempt per start
  position decides it. The result is the text of group 1.
\<close>

definition match_delay :: "string \<Rightarrow> string option" where
  "match_delay s =
     (let ds = takeWhile is_digit s; r = dropWhile is_digit s in
      if ds = [] then None
      else (case r of
              [] \<Rightarrow> None
            | c # r1 \<Rightarrow>
                if c = CHR ''s'' then Some ds
                else if c = CHR ''.'' then
                  (let fs = takeWhile is_digit r1; r2 = dropWhile is_digit r1 in
                   (case r2 of
                      [] \<Rightarrow> None
                    | c2 # r3 \<Rightarrow> if c2 = CHR ''s'' then Some (ds @ [CHR ''.''] @ fs) else None))
                else None))"

fun search_delay :: "string \<Rightarrow> string option" where
  "search_delay [] = None"
| "search_delay (c # cs) =
     (if startswith (c # cs) ''Please retry in '' then
        (case match_delay (drop 16 (c # cs)) of
           Some g \<Rightarrow> Some g
         | None \<Rightarrow> search_delay cs)
      else search_delay cs)"

text \<open>
  Python exceptions, as far as the model tells them apart. \<open>time.sleep\<close> is given by the
  environment, a function from the duration to the exception the call raises, if any: it
  raises for a duration that does not fit its clock. \<open>time_sleep\<close> is the part of that
  which CPython fixes on every platform: the duration is converted to a 64-bit count of
  nanoseconds, rounding up, and \<open>OverflowError\<close> is raised when it does not fit.
\<close>

datatype exn = ValueError | OverflowError | Failure string

definition time_sleep :: "real \<Rightarrow> exn option" where
  "time_sleep secs = (if 2 ^ 63 \<le> \<lceil>secs * 10 ^ 9\<rceil> then Some OverflowError else None)"

definition new_tab_action :: string where
  "new_tab_action = ''hotkey('' @ [dq] @ ''cmd+t'' @ [dq] @ '')''"

text \<open>
  The \<open>except\<close> branch of \<open>think\<close>. It is outside any \<open>try\<close>, so an exception of
  \<open>time.sleep\<close> (or of \<open>float\<close>) leaves \<open>think\<close>: that is the \<open>Inl\<close> result. Otherwise
  the result is the seconds slept, in order, and the action returned.
\<close>

definition think_error ::
  "(real \<Rightarrow> exn option) \<Rightarrow> string \<Rightarrow> string \<Rightarrow> exn + real list \<times> string" where
  "think_error sleep task error_str =
     (if contains error_str ''429'' \<or> contains error_str ''RESOURCE_EXHAUSTED'' then
        (case (case search_delay error_str of
                 Some g \<Rightarrow>
                   (case py_float g of
                      None \<Rightarrow> Inl ValueError
                    | Some delay \<Rightarrow>
                        (case sleep (delay + 1) of Some e \<Rightarrow> Inl e | None \<Rightarrow> Inr [delay + 1]))
               | None \<Rightarrow> (case sleep 10 of Some e \<Rightarrow> Inl e | None \<Rightarrow> Inr [10])) of
           Inl e \<Rightarrow> Inl e
         | Inr slept \<Rightarrow>
             if (contains (lower task) ''safari'' \<or> contains (lower task) ''browser'')
                \<and> contains (lower task) ''search''
             then Inr (slept, new_tab_action)
             else Inr (slept, ''done()''))
      else Inr ([], ''done()''))"

text \<open>
  The one call of the reasoning collaborator inside \<open>think\<close> either yields the reply text
  or raises, with \<open>str(e)\<close> the message; a reply without text raises inside the same
  \<open>try\<close>. \<open>think\<close> returns the sleeps it made and the action line, or raises.
\<close>

datatype infer_result = Reply string | Raised string

definition think ::
  "(real \<Rightarrow> exn option) \<Rightarrow> string \<Rightarrow> infer_result \<Rightarrow> exn + real list \<times> string" where
  "think sleep task r =
     (case r of
        Reply text \<Rightarrow> Inr ([], think_reply text)
      | Raised error_str \<Rightarrow> think_error sleep task error_str)"

section \<open>The executor\<close>

text \<open>\<open>re.search(r'"([^"]*)"', text)\<close>: the text between the first two double quotes.\<close>

definition extract_text :: "string \<Rightarrow> string option" where
  "extract_text text =
     (case dropWhile (\<lambda>c. c \<noteq> dq) text of
        [] \<Rightarrow> None
      | q # r \<Rightarrow> if dq \<in> set r then Some (takeWhile (\<lambda>c. c \<noteq> dq) r) else None)"

text \<open>\<open>re.search(r'\((\d+)\)', text)\<close>, leftmost match, and \<open>int\<close> of the digits.\<close>

fun extract_number :: "string \<Rightarrow> nat option" where
  "extract_number [] = None"
| "extract_number (c # cs) =
     (if c = CHR ''('' \<and> takeWhile is_digit cs \<noteq> []
         \<and> startswith (dropWhile is_digit cs) '')''
      then Some (nat_of_digits (takeWhile is_digit cs))
      else extract_number cs)"

text \<open>
  \<open>re.search(r'\(([0-9.]+),\s*([0-9.]+)\)', text)\<close>: the character classes exclude the
  literals that follow them, so the longest runs are the only way to match at a position.
\<close>

definition is_coord_char :: "char \<Rightarrow> bool" where
  "is_coord_char c = (is_digit c \<or> c = CHR ''.'')"

definition match_coords :: "string \<Rightarrow> (string \<times> string) option" where
  "match_coords s =
     (if \<not> startswith s ''('' then None
      else
        (let g1 = takeWhile is_coord_char (drop 1 s);
             r1 = dropWhile is_coord_char (drop 1 s) in
         if g1 = [] \<or> \<not> startswith r1 '','' then None
         else
           (let r2 = dropWhile is_space (drop 1 r1);
                g2 = takeWhile is_coord_char r2;
                r3 = dropWhile is_coord_char r2 in
            if g2 = [] \<or> \<not> startswith r3 '')'' then None else Some (g1, g2))))"

fun search_coords :: "string \<Rightarrow> (string \<times> string) option" where
  "search_coords [] = None"
| "search_coords (c # cs) =
     (case match_coords (c # cs) of Some g \<Rightarrow> Some g | None \<Rightarrow> search_coords cs)"

text \<open>\<open>_extract_coords\<close>: \<open>float\<close> raises \<open>ValueError\<close> on a group such as \<open>1.2.3\<close>.\<close>

definition extract_coords :: "string \<Rightarrow> exn + (real \<times> real) option" where
  "extract_coords text =
     (case search_coords text of
        None \<Rightarrow> Inr None
      | Some (g1, g2) \<Rightarrow>
          (case py_float g1 of
             None \<Rightarrow> Inl ValueError
           | Some ratio_x \<Rightarrow>
               (case py_float g2 of
                  None \<Rightarrow> Inl ValueError
                | Some ratio_y \<Rightarrow> Inr (Some (clamp_ratio ratio_x, clamp_ratio ratio_y)))))"

text \<open>
  The procedures \<open>execute\<close> calls. Whether a call raises is given by the backend,
  a function from the call to the exception it raises, if any.
\<close>

datatype call =
    OpenAppWorkflow string
  | WebSearchWorkflow string
  | MoveMouse real real
  | LeftClick real real
  | DoubleClick real real
  | Hover real real
  | BulkTypeText string
  | TypeText string
  | Scroll string
  | HotkeyCall string
  | SleepCall real

definition perform :: "(call \<Rightarrow> exn option) \<Rightarrow> call \<Rightarrow> (exn + 'a) \<Rightarrow> (exn + 'a)" where
  "perform backend c k = (case backend c of Some e \<Rightarrow> Inl e | None \<Rightarrow> k)"

definition with_coords ::
  "string \<Rightarrow> (real \<Rightarrow> real \<Rightarrow> exn + bool option) \<Rightarrow> exn + bool option" where
  "with_coords action_text k =
     (case extract_coords action_text of
        Inl e \<Rightarrow> Inl e
      | Inr None \<Rightarrow> Inr None
      | Inr (Some (x, y)) \<Rightarrow> k x y)"

definition with_text :: "string \<Rightarrow> 'a \<Rightarrow> (string \<Rightarrow> 'a) \<Rightarrow> 'a" where
  "with_text action_text none k =
     (case extract_text action_text of
        None \<Rightarrow> none
      | Some t \<Rightarrow> if t \<noteq> [] then k t else none)"

text \<open>
  The body of the \<open>try\<close> in \<open>execute\<close>: \<open>Inl\<close> is a raised exception, \<open>Inr (Some b)\<close> a
  \<open>return b\<close> inside the body, \<open>Inr None\<close> a branch that falls through to the end.
\<close>

definition execute_try :: "(call \<Rightarrow> exn option) \<Rightarrow> string \<Rightarrow> exn + bool option" where
  "execute_try backend action_text =
     (if startswith action_text ''open_app'' then
        with_text action_text (Inr (Some False))
          (\<lambda>app_name. perform backend (OpenAppWorkflow app_name) (Inr (Some False)))
      else if startswith action_text ''web_search'' then
        with_text action_text (Inr (Some False))
          (\<lambda>search_term. perform backend (WebSearchWorkflow search_term) (Inr (Some False)))
      else if startswith action_text ''move_mouse'' then
        with_coords action_text (\<lambda>x y. perform backend (MoveMouse x y) (Inr None))
      else if startswith action_text ''left_click'' then
        with_coords action_text (\<lambda>x y. perform backend (LeftClick x y) (Inr None))
      else if startswith action_text ''double_click'' then
        with_coords action_text (\<lambda>x y. perform backend (DoubleClick x y) (Inr None))
      else if startswith action_text ''hover'' then
        with_coords action_text (\<lambda>x y. perform backend (Hover x y) (Inr None))
      else if startswith action_text ''bulk_type'' then
        with_text action_text (Inr None)
          (\<lambda>text. perform backend (BulkTypeText text) (Inr None))
      else if startswith action_text ''type_text'' then
        with_text action_text (Inr None)
          (\<lambda>text. perform backend (TypeText text) (Inr None))
      else if startswith action_text ''scroll'' then
        with_text action_text (Inr None)
          (\<lambda>direction. perform backend (Scroll direction) (Inr None))
      else if startswith action_text ''hotkey'' then
        with_text action_text (Inr None)
          (\<lambda>key. perform backend (HotkeyCall key)
             (if key = ''cmd+space'' \<or> key = ''cmd+t''
              then perform backend (SleepCall (15 / 10)) (Inr None)
              else Inr None))
      else if startswith action_text ''wait'' then
        (case extract_number action_text of
           None \<Rightarrow> Inr None
         | Some ms \<Rightarrow>
             if ms \<noteq> 0 then perform backend (SleepCall (real ms / 1000)) (Inr None)
             else Inr None)
      else if startswith action_text ''focus_address_bar'' then
        perform backend (HotkeyCall ''cmd+l'') (perform backend (SleepCall (3 / 10)) (Inr None))
      else if startswith action_text ''done'' then Inr (Some True)
      else Inr None)"

text \<open>
  \<open>execute\<close>: \<open>except Exception\<close> around the body, then \<open>return False\<close>. The result type
  keeps the exception case, so that not raising is a property to prove.
\<close>

definition execute :: "(call \<Rightarrow> exn option) \<Rightarrow> string \<Rightarrow> exn + bool" where
  "execute backend action_text =
     (case execute_try backend action_text of
        Inl e \<Rightarrow> Inr False
      | Inr (Some b) \<Rightarrow> Inr b
      | Inr None \<Rightarrow> Inr False)"

section \<open>The control loop\<close>

text \<open>
  \<open>Harvey.run\<close>: \<open>for step in range(20)\<close>. The collaborators are given per step:
  \<open>capture step\<close> is what \<open>capture_to_bytes\<close> returns, \<open>infer step\<close> the outcome of the
  reasoning call. At step 0 a captured screenshot is first written to the debug file,
  outside any \<open>try\<close>: \<open>debug_write\<close> is the exception that raises, if any. An exception of
  that write or of \<open>think\<close> leaves \<open>run\<close>. The result is the list of action lines handed
  to \<open>execute\<close>, in order, and how the loop ended. The narration call swallows every
  exception and is left out.
\<close>

datatype ending = CaptureFailed | TaskComplete | StepsExhausted | Crashed exn

fun run_from ::
  "(nat \<Rightarrow> string option) \<Rightarrow> (nat \<Rightarrow> infer_result) \<Rightarrow> (real \<Rightarrow> exn option)
     \<Rightarrow> (call \<Rightarrow> exn option) \<Rightarrow> exn option \<Rightarrow> string
     \<Rightarrow> nat \<Rightarrow> nat \<Rightarrow> string list \<times> ending" where
  "run_from capture infer sleep backend debug_write task step 0 = ([], StepsExhausted)"
| "run_from capture infer sleep backend debug_write task step (Suc n) =
     (case capture step of
        None \<Rightarrow> ([], CaptureFailed)
      | Some screenshot_data \<Rightarrow>
          if screenshot_data = [] then ([], CaptureFailed)
          else
            (case (if step = 0 then debug_write else None) of
               Some e \<Rightarrow> ([], Crashed e)
             | None \<Rightarrow>
                 (case think sleep task (infer step) of
                    Inl e \<Rightarrow> ([], Crashed e)
                  | Inr (slept, action) \<Rightarrow>
                      (case execute backend action of
                         Inl e \<Rightarrow> ([action], Crashed e)
                       | Inr done \<Rightarrow>
                           if done then ([action], TaskComplete)
                           else (case run_from capture infer sleep backend debug_write task
                                        (Suc step) n of
                                   (actions, e) \<Rightarrow> (action # actions, e))))))"

definition run ::
  "(nat \<Rightarrow> string option) \<Rightarrow> (nat \<Rightarrow> infer_result) \<Rightarrow> (real \<Rightarrow> exn option)
     \<Rightarrow> (call \<Rightarrow> exn option) \<Rightarrow> exn option \<Rightarrow> string \<Rightarrow> string list \<times> ending" where
  "run capture infer sleep backend debug_write task =
     run_from capture infer sleep backend debug_write task 0 20"

text \<open>What \<open>execute\<close> makes of the outcome of its \<open>try\<close> body.\<close>

definition settle :: "exn + bool option \<Rightarrow> exn + bool" where
  "settle r = (case r of Inl e \<Rightarrow> Inr False | Inr (Some b) \<Rightarrow> Inr b | Inr None \<Rightarrow> Inr False)"

text \<open>
  \<open>captured c\<close>: the capture result passes \<open>if not screenshot_data\<close>.
  \<open>step_raises\<close>: the exception that leaves the loop at a step before \<open>execute\<close> is
  reached, if any. \<open>planned\<close>: the action line \<open>think\<close> returns at a step where it
  returns. \<open>ending_ok\<close>: what each way of leaving the loop says about the executed
  actions.
\<close>

definition captured :: "string option \<Rightarrow> bool" where
  "captured c = (case c of None \<Rightarrow> False | Some d \<Rightarrow> d \<noteq> [])"

definition step_raises ::
  "(nat \<Rightarrow> infer_result) \<Rightarrow> (real \<Rightarrow> exn option) \<Rightarrow> exn option \<Rightarrow> string \<Rightarrow> nat
     \<Rightarrow> exn option" where
  "step_raises infer sleep debug_write task step =
     (case (if step = 0 then debug_write else None) of
        Some e \<Rightarrow> Some e
      | None \<Rightarrow> (case think sleep task (infer step) of Inl e \<Rightarrow> Some e | Inr r \<Rightarrow> None))"

definition planned ::
  "(nat \<Rightarrow> infer_result) \<Rightarrow> (real \<Rightarrow> exn option) \<Rightarrow> string \<Rightarrow> nat \<Rightarrow> string" where
  "planned infer sleep task step =
     (case think sleep task (infer step) of Inr r \<Rightarrow> snd r | Inl e \<Rightarrow> [])"

definition ending_ok ::
  "(nat \<Rightarrow> string option) \<Rightarrow> (nat \<Rightarrow> infer_result) \<Rightarrow> (real \<Rightarrow> exn option) \<Rightarrow> exn option
     \<Rightarrow> string \<Rightarrow> nat \<Rightarrow> nat \<Rightarrow> string list \<Rightarrow> ending \<Rightarrow> bool" where
  "ending_ok capture infer sleep debug_write task step n actions e =
     (case e of
        TaskComplete \<Rightarrow> actions \<noteq> [] \<and> startswith (last actions) ''done''
      | CaptureFailed \<Rightarrow> length actions < n \<and> \<not> captured (capture (step + length actions))
          \<and> list_all (\<lambda>a. \<not> startswith a ''done'') actions
      | StepsExhausted \<Rightarrow> length actions = n \<and> list_all (\<lambda>a. \<not> startswith a ''done'') actions
      | Crashed x \<Rightarrow> length actions < n \<and> captured (capture (step + length actions))
          \<and> step_raises infer sleep debug_write task (step + length actions) = Some x
          \<and> list_all (\<lambda>a. \<not> startswith a ''done'') actions)"






text \<open>
  For stating what the click entry points do: the motion-controller calls among the
  effects; the calibrated target of a click; whether a re-queried position is off the
  target by more than a tolerance on either axis; a world whose frontmost process is
  Spotlight; and a world in which the pointer starts at (900, 540) and is found at
  (963, 540), 3 points right of the screen centre, when queried again after the move.
\<close>

definition moves :: "effect list \<Rightarrow> effect list" where
  "moves es = filter is_move es"

definition click_target :: "world \<Rightarrow> real \<Rightarrow> real \<Rightarrow> int \<times> int" where
  "click_target w x_ratio y_ratio =
     (case transform_coords (quartz w) x_ratio y_ratio of
        (x0, y0) \<Rightarrow> calibrate_click_position (environ w) x0 y0)"

definition drift_exceeds :: "int \<Rightarrow> int \<times> int \<Rightarrow> int \<times> int \<Rightarrow> bool" where
  "drift_exceeds tol actual target =
     (tol < \<bar>fst actual - fst target\<bar> \<or> tol < \<bar>snd actual - snd target\<bar>)"

definition spotlight_world :: world where
  "spotlight_world =
     \<lparr>quartz = Some \<lparr>bounds_width = 1920, bounds_height = 1080, mode = None\<rparr>,
      environ = Map.empty,
      frontmost = Some ''Spotlight'',
      pointer = (\<lambda>k. (960, 540))\<rparr>"


text \<open>
  For stating what saving does to the file: a line that, stripped, starts with \<open>key=\<close>;
  a line that is for neither offset key; the lines of a file that may not exist.
\<close>

definition binds :: "string \<Rightarrow> string \<Rightarrow> bool" where
  "binds key line = startswith (strip line) (key @ ''='')"

definition unrelated :: "string \<Rightarrow> bool" where
  "unrelated line = (\<not> binds ''HARVEY_X_OFFSET'' line \<and> \<not> binds ''HARVEY_Y_OFFSET'' line)"

definition file_lines :: "string list option \<Rightarrow> string list" where
  "file_lines file = (case file of Some ls \<Rightarrow> ls | None \<Rightarrow> [])"

section \<open>Facts about rounding\<close>

lemma py_round_lower: "\<lfloor>r\<rfloor> \<le> py_round r"
  by (simp add: py_round_def Let_def)

lemma py_round_upper: "py_round r \<le> \<lceil>r\<rceil>"
proof -
  have "\<lfloor>r\<rfloor> + 1 \<le> \<lceil>r\<rceil>" if "r \<noteq> of_int \<lfloor>r\<rfloor>"
    using that by linarith
  moreover have "\<lfloor>r\<rfloor> \<le> \<lceil>r\<rceil>" by linarith
  ultimately show ?thesis
    by (auto simp add: py_round_def Let_def)
qed

lemma py_round_between:
  assumes "0 \<le> r" and "r \<le> of_int n"
  shows "0 \<le> py_round r \<and> py_round r \<le> n"
proof
  have "0 \<le> \<lfloor>r\<rfloor>" using assms(1) by simp
  then show "0 \<le> py_round r" using py_round_lower [of r] by linarith
next
  have "\<lceil>r\<rceil> \<le> n" using assms(2) by (simp add: ceiling_le_iff)
  then show "py_round r \<le> n" using py_round_upper [of r] by linarith
qed

lemma clamp_ratio_unit: "0 \<le> clamp_ratio r \<and> clamp_ratio r \<le> 1"
  by (simp add: clamp_ratio_def)

lemma scaled_ratio_in_range:
  assumes "0 \<le> q" and "q \<le> 1" and "(1::int) \<le> n"
  shows "0 \<le> q * real_of_int (n - 1) \<and> q * real_of_int (n - 1) \<le> real_of_int (n - 1)"
proof -
  have nn: "0 \<le> real_of_int (n - 1)" using assms(3) by simp
  have "q * real_of_int (n - 1) \<le> 1 * real_of_int (n - 1)"
    using assms(2) nn by (rule mult_right_mono)
  then show ?thesis using assms(1) nn by simp
qed

lemma py_int_of_int: "py_int (real_of_int n) = n"
  by (simp add: py_int_def)

lemma py_round_half_959: "py_round (1919 / 2) = 960"
proof -
  have "\<lfloor>1919 / 2 :: real\<rfloor> = 959" by linarith
  then show ?thesis by (simp add: py_round_def Let_def)
qed

lemma py_round_half_539: "py_round (1079 / 2) = 540"
proof -
  have "\<lfloor>1079 / 2 :: real\<rfloor> = 539" by linarith
  then show ?thesis by (simp add: py_round_def Let_def)
qed

lemma py_float_zero: "py_float ''0'' = Some 0"
  by (simp add: py_float_def float_body_def strip_def is_space_def is_digit_def nat_of_digits_def
      digit_val_def)

section \<open>The coordinate mapper\<close>

text \<open>
  C1. For every ratio pair, in range or not, the point that \<open>_transform_coords\<close> returns
  (the point before any calibration offset is added) lies in
  \<open>[0, width - 1] \<times> [0, height - 1]\<close>, for a screen of at least one point each way.
\<close>

theorem transform_coords_clamped:
  assumes "get_screen_info q = (width, height, scale)" and "1 \<le> width" and "1 \<le> height"
  shows "0 \<le> fst (transform_coords q x_ratio y_ratio)
       \<and> fst (transform_coords q x_ratio y_ratio) \<le> width - 1
       \<and> 0 \<le> snd (transform_coords q x_ratio y_ratio)
       \<and> snd (transform_coords q x_ratio y_ratio) \<le> height - 1"
proof -
  have x: "0 \<le> py_round (clamp_ratio x_ratio * real_of_int (width - 1))
         \<and> py_round (clamp_ratio x_ratio * real_of_int (width - 1)) \<le> width - 1"
    using scaled_ratio_in_range [of "clamp_ratio x_ratio" width] clamp_ratio_unit [of x_ratio]
      assms(2) py_round_between [of "clamp_ratio x_ratio * real_of_int (width - 1)" "width - 1"]
    by blast
  have y: "0 \<le> py_round (clamp_ratio y_ratio * real_of_int (height - 1))
         \<and> py_round (clamp_ratio y_ratio * real_of_int (height - 1)) \<le> height - 1"
    using scaled_ratio_in_range [of "clamp_ratio y_ratio" height] clamp_ratio_unit [of y_ratio]
      assms(3) py_round_between [of "clamp_ratio y_ratio * real_of_int (height - 1)" "height - 1"]
    by blast
  show ?thesis
    using x y by (simp add: transform_coords_def assms(1) Let_def)
qed

text \<open>The ratio pair \<open>(-1, 2)\<close> on the fallback screen of 1920 by 1080 points.\<close>

theorem transform_coords_clamped_witness:
  "get_screen_info None = (1920, 1080, 1) \<and> (1::int) \<le> 1920 \<and> (1::int) \<le> 1080
   \<and> 0 \<le> fst (transform_coords None (- 1) 2)
   \<and> fst (transform_coords None (- 1) 2) \<le> 1920 - 1
   \<and> 0 \<le> snd (transform_coords None (- 1) 2)
   \<and> snd (transform_coords None (- 1) 2) \<le> 1080 - 1"
  using transform_coords_clamped [of None 1920 1080 1 "- 1" 2]
  by (simp add: get_screen_info_def)

lemma transform_coords_out_of_range_example: "transform_coords None (- 1) 2 = (0, 1079)"
  by (simp add: transform_coords_def get_screen_info_def clamp_ratio_def py_round_def Let_def)

text \<open>
  C2. On a screen of 1920 by 1080 points the ratio \<open>(0.5, 0.5)\<close> maps to \<open>(960, 540)\<close>:
  \<open>round\<close> takes 959.5 and 539.5 to the even neighbour. This holds on the fallback
  geometry and on a Quartz display of these bounds whatever its pixel mode, and a zero
  calibration offset leaves the point as it is. In general the display mode, from which
  alone the scale factor is computed, does not enter the result.
\<close>

theorem transform_coords_center:
  "transform_coords None (1 / 2) (1 / 2) = (960, 540)
   \<and> transform_coords (Some \<lparr>bounds_width = 1920, bounds_height = 1080, mode = m\<rparr>) (1 / 2) (1 / 2)
       = (960, 540)
   \<and> calibrate_click_position Map.empty 960 540 = (960, 540)
   \<and> transform_coords (Some (d\<lparr>mode := m\<rparr>)) x_ratio y_ratio
       = transform_coords (Some d) x_ratio y_ratio"
proof (intro conjI)
  show "transform_coords None (1 / 2) (1 / 2) = (960, 540)"
    by (simp add: transform_coords_def get_screen_info_def clamp_ratio_def
        py_round_half_959 py_round_half_539)
  show "transform_coords (Some \<lparr>bounds_width = 1920, bounds_height = 1080, mode = m\<rparr>) (1 / 2) (1 / 2)
       = (960, 540)"
    by (simp add: transform_coords_def get_screen_info_def clamp_ratio_def py_int_def Let_def
        py_round_half_959 py_round_half_539 split: option.split prod.split)
  show "calibrate_click_position Map.empty 960 540 = (960, 540)"
    by (simp add: calibrate_click_position_def getenv_def py_float_zero py_int_def)
  show "transform_coords (Some (d\<lparr>mode := m\<rparr>)) x_ratio y_ratio
       = transform_coords (Some d) x_ratio y_ratio"
    by (simp add: transform_coords_def get_screen_info_def Let_def)
qed

section \<open>The motion controller: end points\<close>

lemma distance_less_5_iff:
  "distance sx sy ex ey < 5 \<longleftrightarrow> (ex - sx)\<^sup>2 + (ey - sy)\<^sup>2 < 25"
proof -
  have "sqrt (real_of_int ((ex - sx)\<^sup>2 + (ey - sy)\<^sup>2)) < sqrt 25
        \<longleftrightarrow> real_of_int ((ex - sx)\<^sup>2 + (ey - sy)\<^sup>2) < 25"
    by (rule real_sqrt_less_iff)
  moreover have "sqrt 25 = 5"
    using real_sqrt_abs [of 5] by simp
  moreover have "real_of_int ((ex - sx)\<^sup>2 + (ey - sy)\<^sup>2) < 25
        \<longleftrightarrow> (ex - sx)\<^sup>2 + (ey - sy)\<^sup>2 < 25"
    by linarith
  ultimately show ?thesis by (simp add: distance_def)
qed

lemma move_point_first: "move_point sx sy ex ey steps 0 = (sx, sy)"
  by (simp add: move_point_def py_int_of_int)

lemma move_point_last:
  assumes "steps \<noteq> 0"
  shows "move_point sx sy ex ey steps steps = (ex, ey)"
  using assms by (simp add: move_point_def py_int_of_int)

lemma upto_from_0: "0 \<le> n \<Longrightarrow> [0..n] = 0 # [1..n]"
  by (simp add: upto_rec1)

lemma last_upto: "i \<le> j \<Longrightarrow> last [i..j] = j"
  by (simp add: upto_rec2)

lemma distance_100: "distance 0 0 100 0 = 100"
  using real_sqrt_abs [of 100] by (simp add: distance_def)

lemma steps_100: "max 10 (py_int (distance 0 0 100 0 / 15)) = 10"
proof -
  have "\<lfloor>100 / 15 :: real\<rfloor> = 6" by linarith
  then show ?thesis by (simp add: distance_100 py_int_def)
qed

lemma move_100: "smooth_move_mouse True 0 0 100 0 = map (move_point 0 0 100 0 10) [0..10]"
  using steps_100 by (simp add: smooth_move_mouse_def distance_100 Let_def)

lemma point_1: "move_point 0 0 100 0 10 1 = (2, 0)"
  by (simp add: move_point_def py_int_def Let_def power2_eq_square)

text \<open>
  C3, as the code has it. A move over a distance below 5 posts nothing. With Quartz
  available, a move over a distance of at least 5 posts at least 11 points; the first
  point posted is the start itself (the loop begins at \<open>i = 0\<close>), and the last is the
  destination exactly.
\<close>

theorem smooth_move_mouse_endpoints:
  "(distance sx sy ex ey < 5 \<longrightarrow> smooth_move_mouse q sx sy ex ey = [])
   \<and> (5 \<le> distance sx sy ex ey \<longrightarrow>
        11 \<le> length (smooth_move_mouse True sx sy ex ey)
        \<and> hd (smooth_move_mouse True sx sy ex ey) = (sx, sy)
        \<and> last (smooth_move_mouse True sx sy ex ey) = (ex, ey))"
proof (intro conjI impI)
  assume "distance sx sy ex ey < 5"
  then show "smooth_move_mouse q sx sy ex ey = []"
    by (simp add: smooth_move_mouse_def)
next
  assume far: "5 \<le> distance sx sy ex ey"
  define steps where "steps = max 10 (py_int (distance sx sy ex ey / 15))"
  have pos: "10 \<le> steps" by (simp add: steps_def)
  have run: "smooth_move_mouse True sx sy ex ey = map (move_point sx sy ex ey steps) [0..steps]"
    using far by (simp add: smooth_move_mouse_def steps_def Let_def)
  have ne: "[0..steps] \<noteq> []" using pos by simp
  show "11 \<le> length (smooth_move_mouse True sx sy ex ey)"
    using pos by (simp add: run)
  show "hd (smooth_move_mouse True sx sy ex ey) = (sx, sy)"
    using pos by (simp add: run upto_from_0 move_point_first)
  have "last (map (move_point sx sy ex ey steps) [0..steps])
        = move_point sx sy ex ey steps (last [0..steps])"
    using ne by (rule last_map)
  also have "\<dots> = move_point sx sy ex ey steps steps"
    using pos by (simp add: last_upto)
  also have "\<dots> = (ex, ey)"
    using pos by (intro move_point_last) simp
  finally show "last (smooth_move_mouse True sx sy ex ey) = (ex, ey)"
    by (simp add: run)
qed

text \<open>A move of 3 points posts nothing; a move of 100 points starts at the start.\<close>

theorem smooth_move_mouse_endpoints_witness:
  "distance 0 0 3 0 < 5 \<and> smooth_move_mouse True 0 0 3 0 = []
   \<and> 5 \<le> distance 0 0 100 0
   \<and> 11 \<le> length (smooth_move_mouse True 0 0 100 0)
   \<and> hd (smooth_move_mouse True 0 0 100 0) = (0, 0)
   \<and> last (smooth_move_mouse True 0 0 100 0) = (100, 0)"
proof -
  have near: "distance 0 0 3 0 < 5" by (simp add: distance_less_5_iff)
  have far: "5 \<le> distance 0 0 100 0" by (simp add: distance_100)
  show ?thesis
    using near far smooth_move_mouse_endpoints [of 0 0 3 0 True]
      smooth_move_mouse_endpoints [of 0 0 100 0 True]
    by blast
qed

text \<open>
  C3 as stated fails: moving from \<open>(0, 0)\<close> to \<open>(100, 0)\<close>, the first point posted is
  \<open>(0, 0)\<close>, the start, and the point that follows the start on the path, \<open>(2, 0)\<close>, is
  posted second.
\<close>

theorem smooth_move_first_point_counterexample:
  "smooth_move_mouse True 0 0 100 0 ! 0 = (0, 0) \<and> smooth_move_mouse True 0 0 100 0 ! 1 = (2, 0)"
proof -
  have "[0..10::int] = 0 # 1 # [2..10]" by (simp add: upto_rec1)
  then show ?thesis by (simp add: move_100 point_1 move_point_first)
qed

section \<open>The executor never raises\<close>

lemma startswith_iff: "startswith s p \<longleftrightarrow> (\<exists>r. s = p @ r)"
  by (induction s p rule: startswith.induct) auto

lemma settle_perform:
  "settle k = Inr False \<Longrightarrow> settle (perform backend c k) = Inr False"
  by (simp add: perform_def settle_def split: option.split)

lemma settle_with_text:
  assumes "settle none = Inr False" and "\<And>t. settle (k t) = Inr False"
  shows "settle (with_text a none k) = Inr False"
  using assms by (simp add: with_text_def split: option.split)

lemma settle_with_coords:
  assumes "\<And>x y. settle (k x y) = Inr False"
  shows "settle (with_coords a k) = Inr False"
proof (cases "extract_coords a")
  case (Inl e)
  then show ?thesis by (simp add: with_coords_def settle_def)
next
  case (Inr r)
  then show ?thesis
    using assms by (cases r) (auto simp add: with_coords_def settle_def)
qed

lemma settle_simps:
  "settle (Inr None) = Inr False" "settle (Inr (Some b)) = Inr b" "settle (Inl e) = Inr False"
  by (simp_all add: settle_def)

lemma execute_settle: "execute backend a = settle (execute_try backend a)"
  by (simp add: execute_def settle_def)

lemma not_done:
  "startswith a ''open_app'' \<Longrightarrow> \<not> startswith a ''done''"
  "startswith a ''web_search'' \<Longrightarrow> \<not> startswith a ''done''"
  "startswith a ''move_mouse'' \<Longrightarrow> \<not> startswith a ''done''"
  "startswith a ''left_click'' \<Longrightarrow> \<not> startswith a ''done''"
  "startswith a ''double_click'' \<Longrightarrow> \<not> startswith a ''done''"
  "startswith a ''hover'' \<Longrightarrow> \<not> startswith a ''done''"
  "startswith a ''bulk_type'' \<Longrightarrow> \<not> startswith a ''done''"
  "startswith a ''type_text'' \<Longrightarrow> \<not> startswith a ''done''"
  "startswith a ''scroll'' \<Longrightarrow> \<not> startswith a ''done''"
  "startswith a ''hotkey'' \<Longrightarrow> \<not> startswith a ''done''"
  "startswith a ''wait'' \<Longrightarrow> \<not> startswith a ''done''"
  "startswith a ''focus_address_bar'' \<Longrightarrow> \<not> startswith a ''done''"
  by (auto simp add: startswith_iff)

lemma execute_result: "execute backend action_text = Inr (startswith action_text ''done'')"
proof -
  consider (step) "startswith action_text ''open_app'' \<or> startswith action_text ''web_search''
      \<or> startswith action_text ''move_mouse'' \<or> startswith action_text ''left_click''
      \<or> startswith action_text ''double_click'' \<or> startswith action_text ''hover''
      \<or> startswith action_text ''bulk_type'' \<or> startswith action_text ''type_text''
      \<or> startswith action_text ''scroll'' \<or> startswith action_text ''hotkey''
      \<or> startswith action_text ''wait'' \<or> startswith action_text ''focus_address_bar''"
    | (other) "\<not> startswith action_text ''open_app''" "\<not> startswith action_text ''web_search''"
      "\<not> startswith action_text ''move_mouse''" "\<not> startswith action_text ''left_click''"
      "\<not> startswith action_text ''double_click''" "\<not> startswith action_text ''hover''"
      "\<not> startswith action_text ''bulk_type''" "\<not> startswith action_text ''type_text''"
      "\<not> startswith action_text ''scroll''" "\<not> startswith action_text ''hotkey''"
      "\<not> startswith action_text ''wait''" "\<not> startswith action_text ''focus_address_bar''"
    by blast
  then show ?thesis
  proof cases
    case step
    then have nd: "\<not> startswith action_text ''done''"
      using not_done by blast
    have "settle (execute_try backend action_text) = Inr False"
      unfolding execute_try_def
      by (simp add: settle_perform settle_with_text settle_with_coords settle_simps nd
          split: option.split del: startswith.simps)
    then show ?thesis by (simp add: execute_settle nd)
  next
    case other
    then show ?thesis
      by (simp add: execute_settle execute_try_def settle_simps del: startswith.simps)
  qed
qed

text \<open>
  C10. For every action line and every backend, \<open>execute\<close> returns a value (no exception
  leaves it), and the value is \<open>True\<close> exactly when the line starts with \<open>done\<close>.
\<close>

theorem execute_never_raises:
  "execute backend action_text = Inr (startswith action_text ''done'')
   \<and> (\<forall>e. execute backend action_text \<noteq> Inl e)"
  by (simp add: execute_result)

section \<open>The control loop: bound and terminal states\<close>

lemma captured_iff: "captured c \<longleftrightarrow> (\<exists>d. c = Some d \<and> d \<noteq> [])"
  by (cases c) (simp_all add: captured_def)

lemma run_from_fail:
  "\<not> captured (capture step) \<Longrightarrow>
   run_from capture infer sleep backend debug_write task step (Suc n) = ([], CaptureFailed)"
  by (cases "capture step") (simp_all add: captured_def)

lemma run_from_crash:
  assumes "captured (capture step)" and "step_raises infer sleep debug_write task step = Some x"
  shows "run_from capture infer sleep backend debug_write task step (Suc n) = ([], Crashed x)"
proof -
  obtain d where d: "capture step = Some d" "d \<noteq> []"
    using assms(1) by (auto simp add: captured_iff)
  show ?thesis
    using assms(2)
    by (cases "if step = 0 then debug_write else None"; cases "think sleep task (infer step)")
      (simp_all add: d step_raises_def)
qed

lemma run_from_planned:
  assumes "captured (capture step)" and "step_raises infer sleep debug_write task step = None"
  shows "run_from capture infer sleep backend debug_write task step (Suc n) =
     (if startswith (planned infer sleep task step) ''done''
      then ([planned infer sleep task step], TaskComplete)
      else (planned infer sleep task step
              # fst (run_from capture infer sleep backend debug_write task (Suc step) n),
            snd (run_from capture infer sleep backend debug_write task (Suc step) n)))"
proof -
  obtain d where d: "capture step = Some d" "d \<noteq> []"
    using assms(1) by (auto simp add: captured_iff)
  have w: "(if step = 0 then debug_write else None) = None"
    using assms(2) by (cases "if step = 0 then debug_write else None") (simp_all add: step_raises_def)
  obtain slept action where t: "think sleep task (infer step) = Inr (slept, action)"
    using assms(2) w by (cases "think sleep task (infer step)") (auto simp add: step_raises_def)
  have p: "planned infer sleep task step = action"
    by (simp add: planned_def t)
  show ?thesis
    by (simp add: d w t p execute_result split: prod.split)
qed

lemma run_from_done:
  "captured (capture step) \<Longrightarrow> step_raises infer sleep debug_write task step = None \<Longrightarrow>
   startswith (planned infer sleep task step) ''done'' \<Longrightarrow>
   run_from capture infer sleep backend debug_write task step (Suc n)
     = ([planned infer sleep task step], TaskComplete)"
  by (simp add: run_from_planned del: run_from.simps)

lemma run_from_step:
  "captured (capture step) \<Longrightarrow> step_raises infer sleep debug_write task step = None \<Longrightarrow>
   \<not> startswith (planned infer sleep task step) ''done'' \<Longrightarrow>
   run_from capture infer sleep backend debug_write task step (Suc n) =
     (planned infer sleep task step
        # fst (run_from capture infer sleep backend debug_write task (Suc step) n),
      snd (run_from capture infer sleep backend debug_write task (Suc step) n))"
  by (simp add: run_from_planned del: run_from.simps)

lemma run_from_shape:
  "length (fst (run_from capture infer sleep backend debug_write task step n)) \<le> n
   \<and> fst (run_from capture infer sleep backend debug_write task step n)
       = map (planned infer sleep task)
           [step..<step + length (fst (run_from capture infer sleep backend debug_write task step n))]
   \<and> list_all (\<lambda>i. captured (capture i) \<and> step_raises infer sleep debug_write task i = None)
        [step..<step + length (fst (run_from capture infer sleep backend debug_write task step n))]
   \<and> list_all (\<lambda>a. \<not> startswith a ''done'')
        (butlast (fst (run_from capture infer sleep backend debug_write task step n)))
   \<and> ending_ok capture infer sleep debug_write task step n
        (fst (run_from capture infer sleep backend debug_write task step n))
        (snd (run_from capture infer sleep backend debug_write task step n))"
proof (induction n arbitrary: step)
  case 0
  show ?case by (simp add: ending_ok_def)
next
  case (Suc n)
  let ?r = "run_from capture infer sleep backend debug_write task (Suc step) n"
  let ?p = "planned infer sleep task"
  show ?case
  proof (cases "captured (capture step)")
    case False
    then show ?thesis by (simp add: run_from_fail ending_ok_def del: run_from.simps)
  next
    case cap: True
    show ?thesis
    proof (cases "step_raises infer sleep debug_write task step")
      case (Some x)
      then show ?thesis
        using cap by (simp add: run_from_crash ending_ok_def del: run_from.simps)
    next
      case ok: None
      show ?thesis
      proof (cases "startswith (?p step) ''done''")
        case True
        then show ?thesis
          using cap ok by (simp add: run_from_done ending_ok_def del: run_from.simps)
      next
        case False
        have eq: "run_from capture infer sleep backend debug_write task step (Suc n)
                  = (?p step # fst ?r, snd ?r)"
          using cap ok False by (rule run_from_step)
        have up: "[step..<step + Suc (length (fst ?r))]
                  = step # [Suc step..<Suc step + length (fst ?r)]"
          by (subst upt_conv_Cons) simp_all
        from Suc.IH [of "Suc step"] have ih:
          "length (fst ?r) \<le> n"
          "fst ?r = map ?p [Suc step..<Suc step + length (fst ?r)]"
          "list_all (\<lambda>i. captured (capture i) \<and> step_raises infer sleep debug_write task i = None)
             [Suc step..<Suc step + length (fst ?r)]"
          "list_all (\<lambda>a. \<not> startswith a ''done'') (butlast (fst ?r))"
          "ending_ok capture infer sleep debug_write task (Suc step) n (fst ?r) (snd ?r)"
          by blast+
        have e: "ending_ok capture infer sleep debug_write task step (Suc n)
                   (?p step # fst ?r) (snd ?r)"
          using ih(5) False by (cases "snd ?r") (auto simp add: ending_ok_def)
        have m: "?p step # fst ?r = map ?p (step # [Suc step..<Suc step + length (fst ?r)])"
          by (simp only: list.map ih(2) [symmetric])
        show ?thesis
          unfolding eq fst_conv snd_conv length_Cons up
          using ih(1) ih(3) ih(4) e m cap ok False by (simp del: run_from.simps)
      qed
    qed
  qed
qed

text \<open>
  C4. The loop hands at most 20 action lines to \<open>execute\<close>; the \<open>i\<close>-th of them is the
  one planned at step \<open>i\<close>, counting from 0. A step whose capture fails executes nothing,
  nor does any later step; the same holds for a step at which an exception leaves the
  loop before \<open>execute\<close> is reached. A step whose action starts with \<open>done\<close> is the last
  one executed. The loop ends by a failed capture, by a done action, with all 20 steps
  used, or by such an exception, never by an exception of \<open>execute\<close>.
\<close>

theorem run_control_loop:
  "length (fst (run capture infer sleep backend debug_write task)) \<le> 20
   \<and> fst (run capture infer sleep backend debug_write task)
       = map (planned infer sleep task)
           [0..<length (fst (run capture infer sleep backend debug_write task))]
   \<and> (\<forall>k. \<not> captured (capture k)
          \<longrightarrow> length (fst (run capture infer sleep backend debug_write task)) \<le> k)
   \<and> (\<forall>k. step_raises infer sleep debug_write task k \<noteq> None
          \<longrightarrow> length (fst (run capture infer sleep backend debug_write task)) \<le> k)
   \<and> (\<forall>k. k < length (fst (run capture infer sleep backend debug_write task))
            \<and> startswith (planned infer sleep task k) ''done''
          \<longrightarrow> length (fst (run capture infer sleep backend debug_write task)) = Suc k)
   \<and> ending_ok capture infer sleep debug_write task 0 20
        (fst (run capture infer sleep backend debug_write task))
        (snd (run capture infer sleep backend debug_write task))"
proof -
  let ?acts = "fst (run capture infer sleep backend debug_write task)"
  let ?p = "planned infer sleep task"
  from run_from_shape [of capture infer sleep backend debug_write task 0 20] have sh:
    "length ?acts \<le> 20"
    "?acts = map ?p [0..<length ?acts]"
    "list_all (\<lambda>i. captured (capture i) \<and> step_raises infer sleep debug_write task i = None)
       [0..<length ?acts]"
    "list_all (\<lambda>a. \<not> startswith a ''done'') (butlast ?acts)"
    "ending_ok capture infer sleep debug_write task 0 20 ?acts
       (snd (run capture infer sleep backend debug_write task))"
    by (simp_all add: run_def)
  have cap: "length ?acts \<le> k" if "\<not> captured (capture k)" for k
  proof (rule ccontr)
    assume "\<not> length ?acts \<le> k"
    then have "k \<in> set [0..<length ?acts]" by simp
    then show False using sh(3) that by (simp add: list_all_iff)
  qed
  have crash: "length ?acts \<le> k" if "step_raises infer sleep debug_write task k \<noteq> None" for k
  proof (rule ccontr)
    assume "\<not> length ?acts \<le> k"
    then have "k \<in> set [0..<length ?acts]" by simp
    then show False using sh(3) that by (simp add: list_all_iff)
  qed
  have dn: "length ?acts = Suc k"
    if "k < length ?acts \<and> startswith (?p k) ''done''" for k
  proof (rule ccontr)
    assume ne: "length ?acts \<noteq> Suc k"
    have lt: "k < length (butlast ?acts)"
      using that ne unfolding length_butlast by linarith
    then have "butlast ?acts ! k \<in> set (butlast ?acts)" by (rule nth_mem)
    moreover have "butlast ?acts ! k = ?acts ! k" using lt by (simp add: nth_butlast)
    moreover have "?acts ! k = ?p k"
    proof -
      have "?acts ! k = map ?p [0..<length ?acts] ! k"
        using sh(2) by simp
      also have "\<dots> = ?p k" using that by simp
      finally show ?thesis .
    qed
    ultimately show False using sh(4) that by (simp add: list_all_iff)
  qed
  show ?thesis using sh(1) sh(2) sh(5) cap crash dn by blast
qed

text \<open>
  A run whose third capture fails executes at most two actions; a run whose first reply
  is \<open>Action: done()\<close> executes exactly one.
\<close>

lemma planned_done: "planned (\<lambda>k. Reply ''Action: done()'') sl t k = ''done()''"
  by (simp add: planned_def think_def think_reply_def strip_def is_space_def clean_action_def)

lemma step_raises_reply: "step_raises (\<lambda>k. Reply r) sl None t k = None"
  by (simp add: step_raises_def think_def)

theorem run_control_loop_witness:
  "\<not> captured ((\<lambda>k. if k < 2 then Some ''jpeg'' else None) (2::nat))
   \<and> length (fst (run (\<lambda>k. if k < 2 then Some ''jpeg'' else None)
                   (\<lambda>k. Reply ''Action: wait(1)'') time_sleep (\<lambda>c. None) None ''task'')) \<le> 2
   \<and> 0 < length (fst (run (\<lambda>k. Some ''jpeg'') (\<lambda>k. Reply ''Action: done()'') time_sleep
                     (\<lambda>c. None) None ''task''))
   \<and> startswith (planned (\<lambda>k. Reply ''Action: done()'') time_sleep ''task'' 0) ''done''
   \<and> length (fst (run (\<lambda>k. Some ''jpeg'') (\<lambda>k. Reply ''Action: done()'') time_sleep
                     (\<lambda>c. None) None ''task'')) = Suc 0"
proof -
  define cap :: "nat \<Rightarrow> string option" where "cap = (\<lambda>k. if k < 2 then Some ''jpeg'' else None)"
  define shot :: "nat \<Rightarrow> string option" where "shot = (\<lambda>k. Some ''jpeg'')"
  define waits :: "nat \<Rightarrow> infer_result" where "waits = (\<lambda>k. Reply ''Action: wait(1)'')"
  define dones :: "nat \<Rightarrow> infer_result" where "dones = (\<lambda>k. Reply ''Action: done()'')"
  define be :: "call \<Rightarrow> exn option" where "be = (\<lambda>c. None)"
  have a: "\<not> captured (cap 2)"
    by (simp add: captured_def cap_def)
  have b: "startswith (planned dones time_sleep ''task'' 0) ''done''"
    by (simp add: planned_done dones_def)
  have ok: "step_raises dones time_sleep None ''task'' 0 = None"
    by (simp add: step_raises_reply dones_def)
  have "captured (shot 0)"
    by (simp add: captured_def shot_def)
  then have "run shot dones time_sleep be None ''task''
             = ([planned dones time_sleep ''task'' 0], TaskComplete)"
    unfolding run_def eval_nat_numeral using ok b by (rule run_from_done)
  then have c: "0 < length (fst (run shot dones time_sleep be None ''task''))"
    by simp
  have w1: "length (fst (run cap waits time_sleep be None ''task'')) \<le> 2"
    using a run_control_loop [of cap waits time_sleep be None "''task''"] by blast
  have w2: "length (fst (run shot dones time_sleep be None ''task'')) = Suc 0"
    using b c run_control_loop [of shot dones time_sleep be None "''task''"] by blast
  show ?thesis
    using a b c w1 w2 unfolding cap_def shot_def waits_def dones_def be_def by simp
qed

section \<open>Parsing numbers\<close>

lemma dropWhile_hd: "xs \<noteq> [] \<Longrightarrow> \<not> P (hd xs) \<Longrightarrow> dropWhile P xs = xs"
  by (cases xs) simp_all

lemma strip_id:
  assumes "s \<noteq> []" and "\<not> is_space (hd s)" and "\<not> is_space (last s)"
  shows "strip s = s"
proof -
  have a: "dropWhile is_space s = s"
    using assms(1,2) by (rule dropWhile_hd)
  have "rev s \<noteq> []" and "\<not> is_space (hd (rev s))"
    using assms(1,3) by (simp_all add: hd_rev)
  then have "dropWhile is_space (rev s) = rev s"
    by (rule dropWhile_hd)
  then show ?thesis by (simp add: strip_def a)
qed

lemma digit_not_space: "is_digit c \<Longrightarrow> \<not> is_space c"
  by (auto simp add: is_digit_def is_space_def)

lemma digit_not_sign: "is_digit c \<Longrightarrow> c \<noteq> CHR ''-'' \<and> c \<noteq> CHR ''+'' \<and> c \<noteq> CHR ''.''"
  by (auto simp add: is_digit_def)

lemma takeWhile_all: "list_all P xs \<Longrightarrow> takeWhile P xs = xs"
  by (induction xs) simp_all

lemma dropWhile_all: "list_all P xs \<Longrightarrow> dropWhile P xs = []"
  by (induction xs) simp_all

lemma takeWhile_digits_append:
  "list_all is_digit ds \<Longrightarrow> \<not> is_digit c \<Longrightarrow> takeWhile is_digit (ds @ c # r) = ds"
  by (induction ds) simp_all

lemma dropWhile_digits_append:
  "list_all is_digit ds \<Longrightarrow> \<not> is_digit c \<Longrightarrow> dropWhile is_digit (ds @ c # r) = c # r"
  by (induction ds) simp_all

lemma float_body_digits:
  assumes "ds \<noteq> []" and "list_all is_digit ds"
  shows "float_body ds = Some (real (nat_of_digits ds))"
  using assms by (simp add: float_body_def takeWhile_all dropWhile_all)

lemma float_body_decimal:
  assumes "ds \<noteq> []" and "list_all is_digit ds" and "list_all is_digit fs"
  shows "float_body (ds @ [CHR ''.''] @ fs)
         = Some (real (nat_of_digits ds) + real (nat_of_digits fs) / 10 ^ length fs)"
proof -
  have nd: "\<not> is_digit (CHR ''.'')" by (simp add: is_digit_def)
  have tw: "takeWhile is_digit (ds @ CHR ''.'' # fs) = ds"
    using assms(2) nd by (rule takeWhile_digits_append)
  have dw: "dropWhile is_digit (ds @ CHR ''.'' # fs) = CHR ''.'' # fs"
    using assms(2) nd by (rule dropWhile_digits_append)
  show ?thesis
    using assms(1,3) by (simp add: float_body_def tw dw)
qed

lemma py_float_unsigned:
  assumes "is_digit c" and "\<not> is_space (last (c # r))"
  shows "py_float (c # r) = float_body (c # r)"
proof -
  have "strip (c # r) = c # r"
    using assms by (intro strip_id) (simp_all add: digit_not_space)
  then show ?thesis
    using digit_not_sign [OF assms(1)] by (simp add: py_float_def)
qed

lemma py_float_digits:
  assumes "ds \<noteq> []" and "list_all is_digit ds"
  shows "py_float ds = Some (real (nat_of_digits ds))"
proof -
  obtain c r where ds: "ds = c # r" using assms(1) by (cases ds) auto
  have "is_digit (last ds)" using assms by (simp add: list_all_iff)
  then have "py_float (c # r) = float_body (c # r)"
    using assms(2) ds by (intro py_float_unsigned) (simp_all add: digit_not_space)
  then show ?thesis using float_body_digits [OF assms] by (simp add: ds)
qed

lemma py_float_decimal:
  assumes "ds \<noteq> []" and "list_all is_digit ds" and "list_all is_digit fs"
  shows "py_float (ds @ [CHR ''.''] @ fs)
         = Some (real (nat_of_digits ds) + real (nat_of_digits fs) / 10 ^ length fs)"
proof -
  obtain c r where ds: "ds = c # r" using assms(1) by (cases ds) auto
  have ns: "\<not> is_space (CHR ''.'')" by (simp add: is_space_def)
  have "\<not> is_space (last (ds @ [CHR ''.''] @ fs))"
  proof (cases fs rule: rev_cases)
    case Nil
    then show ?thesis by (simp add: ns)
  next
    case (snoc fs' f)
    then have "is_digit f" using assms(3) by simp
    then show ?thesis using snoc by (simp add: digit_not_space)
  qed
  then have "py_float (c # (r @ [CHR ''.''] @ fs)) = float_body (c # (r @ [CHR ''.''] @ fs))"
    using assms(2) ds by (intro py_float_unsigned) simp_all
  then show ?thesis using float_body_decimal [OF assms] by (simp add: ds)
qed

lemma takeWhile_is_digit_all: "list_all is_digit (takeWhile is_digit s)"
  by (induction s) simp_all

lemma match_delay_float:
  assumes "match_delay s = Some g"
  shows "\<exists>d. py_float g = Some d \<and> 0 \<le> d"
proof -
  let ?ds = "takeWhile is_digit s"
  have ds: "?ds \<noteq> []" using assms by (auto simp add: match_delay_def Let_def split: if_splits)
  have "g = ?ds \<or> (\<exists>r1. g = ?ds @ [CHR ''.''] @ takeWhile is_digit r1)"
    using assms by (auto simp add: match_delay_def Let_def split: if_splits list.splits)
  then show ?thesis
  proof
    assume "g = ?ds"
    then show ?thesis using py_float_digits [OF ds takeWhile_is_digit_all] by simp
  next
    assume "\<exists>r1. g = ?ds @ [CHR ''.''] @ takeWhile is_digit r1"
    then obtain r1 where "g = ?ds @ [CHR ''.''] @ takeWhile is_digit r1" ..
    then show ?thesis
      using py_float_decimal [OF ds takeWhile_is_digit_all takeWhile_is_digit_all, of r1] by simp
  qed
qed

lemma search_delay_float:
  "search_delay s = Some g \<Longrightarrow> \<exists>d. py_float g = Some d \<and> 0 \<le> d"
proof (induction s)
  case Nil
  then show ?case by simp
next
  case (Cons c cs)
  then show ?case
    by (auto simp del: startswith.simps split: if_splits option.splits dest: match_delay_float)
qed


lemma startswith_append: "startswith (p @ r) p"
  by (induction p) simp_all

lemma match_delay_seconds:
  assumes "ds \<noteq> []" and "list_all is_digit ds"
  shows "match_delay (ds @ ''s'' @ post) = Some ds"
proof -
  have nd: "\<not> is_digit (CHR ''s'')" by (simp add: is_digit_def)
  have "takeWhile is_digit (ds @ CHR ''s'' # post) = ds"
    and "dropWhile is_digit (ds @ CHR ''s'' # post) = CHR ''s'' # post"
    using assms(2) nd by (rule takeWhile_digits_append, rule dropWhile_digits_append)
  then show ?thesis using assms(1) by (simp add: match_delay_def)
qed

lemma match_delay_decimal:
  assumes "ds \<noteq> []" and "list_all is_digit ds" and "list_all is_digit fs"
  shows "match_delay (ds @ [CHR ''.''] @ fs @ ''s'' @ post) = Some (ds @ [CHR ''.''] @ fs)"
proof -
  have nd: "\<not> is_digit (CHR ''s'')" "\<not> is_digit (CHR ''.'')" by (simp_all add: is_digit_def)
  have a: "takeWhile is_digit (ds @ CHR ''.'' # fs @ CHR ''s'' # post) = ds"
    and b: "dropWhile is_digit (ds @ CHR ''.'' # fs @ CHR ''s'' # post) = CHR ''.'' # fs @ CHR ''s'' # post"
    using assms(2) nd(2) by (rule takeWhile_digits_append, rule dropWhile_digits_append)
  have c: "takeWhile is_digit (fs @ CHR ''s'' # post) = fs"
    and d: "dropWhile is_digit (fs @ CHR ''s'' # post) = CHR ''s'' # post"
    using assms(3) nd(1) by (rule takeWhile_digits_append, rule dropWhile_digits_append)
  show ?thesis using assms(1) by (simp add: match_delay_def a b c d)
qed

lemma search_delay_found:
  assumes "CHR ''P'' \<notin> set pre" and "match_delay rest = Some g"
  shows "search_delay (pre @ ''Please retry in '' @ rest) = Some g"
  using assms(1)
proof (induction pre)
  case Nil
  show ?case using assms(2) by simp
next
  case (Cons c cs)
  then show ?case by auto
qed

section \<open>The planner: rate-limit fallback\<close>

lemma search_delay_needs_marker:
  "\<not> contains error_str ''Please retry in '' \<Longrightarrow> search_delay error_str = None"
  by (induction error_str) (simp_all del: startswith.simps)

lemma think_error_delay:
  assumes "contains error_str ''429'' \<or> contains error_str ''RESOURCE_EXHAUSTED''"
    and "search_delay error_str = Some g" and "py_float g = Some delay"
    and "sleep (delay + 1) = None"
  shows "think sleep task (Raised error_str)
         = Inr ([delay + 1],
                if (contains (lower task) ''safari'' \<or> contains (lower task) ''browser'')
                   \<and> contains (lower task) ''search''
                then new_tab_action else ''done()'')"
  using assms by (simp add: think_def think_error_def)

lemma think_error_default:
  assumes "contains error_str ''429'' \<or> contains error_str ''RESOURCE_EXHAUSTED''"
    and "search_delay error_str = None" and "sleep 10 = None"
  shows "think sleep task (Raised error_str)
         = Inr ([10],
                if (contains (lower task) ''safari'' \<or> contains (lower task) ''browser'')
                   \<and> contains (lower task) ''search''
                then new_tab_action else ''done()'')"
  using assms by (simp add: think_def think_error_def)

lemma think_error_sleep_raises:
  assumes "contains error_str ''429'' \<or> contains error_str ''RESOURCE_EXHAUSTED''"
    and "search_delay error_str = Some g" and "py_float g = Some delay"
    and "sleep (delay + 1) = Some e"
  shows "think sleep task (Raised error_str) = Inl e"
  using assms by (simp add: think_def think_error_def)

text \<open>
  C5, as the code has it. When the message of the raised error contains \<open>429\<close> or
  \<open>RESOURCE_EXHAUSTED\<close>: if the text \<open>Please retry in\<close> is followed by a duration
  (digits, an optional point and digits, then \<open>s\<close>), \<open>think\<close> sleeps that duration plus
  one second; a message without the text \<open>Please retry in\<close> carries no duration for it,
  and it sleeps 10 seconds. Provided the sleep returns, \<open>think\<close> then returns one
  action, without a second reasoning call: the new-tab hotkey when the lower-cased task
  contains \<open>safari\<close> or \<open>browser\<close> and also contains \<open>search\<close>, and \<open>done()\<close> otherwise.
\<close>

theorem think_rate_limit_fallback:
  assumes "contains error_str ''429'' \<or> contains error_str ''RESOURCE_EXHAUSTED''"
  shows "(\<forall>g. search_delay error_str = Some g \<longrightarrow>
            (\<exists>delay. py_float g = Some delay
               \<and> (sleep (delay + 1) = None \<longrightarrow>
                    think sleep task (Raised error_str)
                    = Inr ([delay + 1],
                           if (contains (lower task) ''safari'' \<or> contains (lower task) ''browser'')
                              \<and> contains (lower task) ''search''
                           then new_tab_action else ''done()''))))
       \<and> (search_delay error_str = None \<and> sleep 10 = None \<longrightarrow>
            think sleep task (Raised error_str)
            = Inr ([10],
                   if (contains (lower task) ''safari'' \<or> contains (lower task) ''browser'')
                      \<and> contains (lower task) ''search''
                   then new_tab_action else ''done()''))
       \<and> (\<not> contains error_str ''Please retry in '' \<longrightarrow> search_delay error_str = None)
       \<and> (\<forall>pre ds post.
            error_str = pre @ ''Please retry in '' @ ds @ ''s'' @ post
              \<and> CHR ''P'' \<notin> set pre \<and> ds \<noteq> [] \<and> list_all is_digit ds
              \<and> sleep (real (nat_of_digits ds) + 1) = None
            \<longrightarrow> (\<exists>action. think sleep task (Raised error_str)
                            = Inr ([real (nat_of_digits ds) + 1], action)))
       \<and> (\<forall>pre ds fs post.
            error_str = pre @ ''Please retry in '' @ ds @ ''.'' @ fs @ ''s'' @ post
              \<and> CHR ''P'' \<notin> set pre \<and> ds \<noteq> [] \<and> list_all is_digit ds \<and> list_all is_digit fs
              \<and> sleep (real (nat_of_digits ds) + real (nat_of_digits fs) / 10 ^ length fs + 1) = None
            \<longrightarrow> (\<exists>action. think sleep task (Raised error_str)
                            = Inr ([real (nat_of_digits ds) + real (nat_of_digits fs) / 10 ^ length fs + 1],
                                   action)))"
proof (intro conjI allI impI)
  fix g assume g: "search_delay error_str = Some g"
  then obtain d where d: "py_float g = Some d" using search_delay_float by blast
  show "\<exists>delay. py_float g = Some delay
          \<and> (sleep (delay + 1) = None \<longrightarrow>
               think sleep task (Raised error_str)
               = Inr ([delay + 1],
                      if (contains (lower task) ''safari'' \<or> contains (lower task) ''browser'')
                         \<and> contains (lower task) ''search''
                      then new_tab_action else ''done()''))"
    using d think_error_delay [OF assms g d] by blast
next
  assume "search_delay error_str = None \<and> sleep 10 = None"
  then show "think sleep task (Raised error_str)
            = Inr ([10],
                   if (contains (lower task) ''safari'' \<or> contains (lower task) ''browser'')
                      \<and> contains (lower task) ''search''
                   then new_tab_action else ''done()'')"
    using think_error_default [OF assms] by blast
next
  assume "\<not> contains error_str ''Please retry in ''"
  then show "search_delay error_str = None" by (rule search_delay_needs_marker)
next
  fix pre ds post
  assume h: "error_str = pre @ ''Please retry in '' @ ds @ ''s'' @ post
              \<and> CHR ''P'' \<notin> set pre \<and> ds \<noteq> [] \<and> list_all is_digit ds
              \<and> sleep (real (nat_of_digits ds) + 1) = None"
  then have "match_delay (ds @ ''s'' @ post) = Some ds"
    by (intro match_delay_seconds) simp_all
  then have g: "search_delay error_str = Some ds"
    using h search_delay_found [of pre "ds @ ''s'' @ post" ds] by simp
  have d: "py_float ds = Some (real (nat_of_digits ds))"
    using h by (intro py_float_digits) simp_all
  show "\<exists>action. think sleep task (Raised error_str) = Inr ([real (nat_of_digits ds) + 1], action)"
    using think_error_delay [OF assms g d] h by blast
next
  fix pre ds fs post
  assume h: "error_str = pre @ ''Please retry in '' @ ds @ ''.'' @ fs @ ''s'' @ post
              \<and> CHR ''P'' \<notin> set pre \<and> ds \<noteq> [] \<and> list_all is_digit ds \<and> list_all is_digit fs
              \<and> sleep (real (nat_of_digits ds) + real (nat_of_digits fs) / 10 ^ length fs + 1) = None"
  then have "match_delay (ds @ [CHR ''.''] @ fs @ ''s'' @ post) = Some (ds @ [CHR ''.''] @ fs)"
    by (intro match_delay_decimal) simp_all
  then have g: "search_delay error_str = Some (ds @ [CHR ''.''] @ fs)"
    using h search_delay_found [of pre "ds @ [CHR ''.''] @ fs @ ''s'' @ post" "ds @ [CHR ''.''] @ fs"]
    by simp
  have d: "py_float (ds @ [CHR ''.''] @ fs)
      = Some (real (nat_of_digits ds) + real (nat_of_digits fs) / 10 ^ length fs)"
    using h by (intro py_float_decimal) simp_all
  show "\<exists>action. think sleep task (Raised error_str)
      = Inr ([real (nat_of_digits ds) + real (nat_of_digits fs) / 10 ^ length fs + 1], action)"
    using think_error_delay [OF assms g d] h by blast
qed

text \<open>
  An error carrying \<open>Please retry in 3.5s\<close> makes the planner sleep 4.5 seconds and, for a
  task about searching in Safari, open a new tab; one without a duration makes it sleep
  10 seconds and, for a task without these words, return \<open>done()\<close>.
\<close>

lemma lower_examples:
  "lower ''Search cats in Safari'' = ''search cats in safari''"
  "lower ''open notes'' = ''open notes''"
  "lower ''search for cats'' = ''search for cats''"
  "lower ''open browser'' = ''open browser''"
  by (simp_all add: lower_def lower_char_def)

lemma time_sleep_short: "time_sleep 10 = None" "time_sleep (9 / 2) = None"
  by (simp_all add: time_sleep_def)

lemma search_delay_examples:
  "search_delay ''429 quota'' = None"
  "search_delay ''429 retry in 3.5s'' = None"
  by simp_all

theorem think_rate_limit_fallback_witness:
  "contains ''429 Please retry in 3.5s'' ''429''
   \<and> think time_sleep ''Search cats in Safari'' (Raised ''429 Please retry in 3.5s'')
       = Inr ([9 / 2], new_tab_action)
   \<and> think time_sleep ''open notes'' (Raised ''429 quota'') = Inr ([10], ''done()'')"
proof -
  have c1: "contains ''429 Please retry in 3.5s'' ''429''" by simp
  have c2: "contains ''429 quota'' ''429''" by simp
  have g: "search_delay ''429 Please retry in 3.5s'' = Some ''3.5''"
    by (simp add: match_delay_def is_digit_def)
  have f: "py_float ''3.5'' = Some (7 / 2)"
    by (simp add: py_float_def float_body_def strip_def is_space_def is_digit_def
        nat_of_digits_def digit_val_def)
  have sl: "time_sleep (7 / 2 + 1) = None" by (simp add: time_sleep_def)
  have t1: "(contains (lower ''Search cats in Safari'') ''safari''
             \<or> contains (lower ''Search cats in Safari'') ''browser'')
            \<and> contains (lower ''Search cats in Safari'') ''search''"
    by (simp add: lower_examples)
  have t2: "\<not> contains (lower ''open notes'') ''search''"
    by (simp add: lower_examples)
  note first = think_rate_limit_fallback [where error_str = "''429 Please retry in 3.5s''"
      and sleep = time_sleep and task = "''Search cats in Safari''", OF disjI1 [OF c1]]
  note second = think_rate_limit_fallback [where error_str = "''429 quota''"
      and sleep = time_sleep and task = "''open notes''", OF disjI1 [OF c2]]
  from first [THEN conjunct1, THEN spec, THEN mp, OF g]
  obtain delay where dl: "py_float ''3.5'' = Some delay"
    and th: "time_sleep (delay + 1) = None \<longrightarrow>
      think time_sleep ''Search cats in Safari'' (Raised ''429 Please retry in 3.5s'')
      = Inr ([delay + 1],
             if (contains (lower ''Search cats in Safari'') ''safari''
                 \<or> contains (lower ''Search cats in Safari'') ''browser'')
                \<and> contains (lower ''Search cats in Safari'') ''search''
             then new_tab_action else ''done()'')"
    by (elim exE conjE) (rule that)
  have dv: "delay = 7 / 2" using dl f by simp
  have a: "think time_sleep ''Search cats in Safari'' (Raised ''429 Please retry in 3.5s'')
           = Inr ([9 / 2], new_tab_action)"
    using th sl t1 unfolding dv by simp
  have b: "think time_sleep ''open notes'' (Raised ''429 quota'') = Inr ([10], ''done()'')"
    using second [THEN conjunct2, THEN conjunct1] search_delay_examples(1) time_sleep_short(1) t2
    by simp
  show ?thesis using c1 a b by simp
qed

text \<open>
  C5 as stated fails. A task that mentions searching but no browser, and one that
  mentions a browser but no search, fall back to \<open>done()\<close>, not to the new tab. A message
  that carries the duration as \<open>retry in 3.5s\<close>, without \<open>Please\<close>, makes the planner
  sleep 10 seconds. A duration of ten thousand million seconds makes \<open>time.sleep\<close> raise
  \<open>OverflowError\<close>, which leaves \<open>think\<close>: no fallback action is returned.
\<close>

theorem think_rate_limit_fallback_counterexample:
  "think time_sleep ''search for cats'' (Raised ''429 quota'') = Inr ([10], ''done()'')
   \<and> think time_sleep ''open browser'' (Raised ''429 quota'') = Inr ([10], ''done()'')
   \<and> think time_sleep ''Search cats in Safari'' (Raised ''429 retry in 3.5s'')
       = Inr ([10], new_tab_action)
   \<and> think time_sleep ''Search cats in Safari'' (Raised ''429 Please retry in 10000000000s'')
       = Inl OverflowError"
proof -
  have c: "contains ''429 quota'' ''429''" "contains ''429 retry in 3.5s'' ''429''"
    "contains ''429 Please retry in 10000000000s'' ''429''"
    by simp_all
  have a: "think time_sleep ''search for cats'' (Raised ''429 quota'') = Inr ([10], ''done()'')"
    using think_error_default [where sleep = time_sleep and task = "''search for cats''",
        OF disjI1 [OF c(1)] search_delay_examples(1) time_sleep_short(1)]
    by (simp add: lower_examples)
  have b: "think time_sleep ''open browser'' (Raised ''429 quota'') = Inr ([10], ''done()'')"
    using think_error_default [where sleep = time_sleep and task = "''open browser''",
        OF disjI1 [OF c(1)] search_delay_examples(1) time_sleep_short(1)]
    by (simp add: lower_examples)
  have d: "think time_sleep ''Search cats in Safari'' (Raised ''429 retry in 3.5s'')
           = Inr ([10], new_tab_action)"
    using think_error_default [where sleep = time_sleep and task = "''Search cats in Safari''",
        OF disjI1 [OF c(2)] search_delay_examples(2) time_sleep_short(1)]
    by (simp add: lower_examples)
  have g: "search_delay ''429 Please retry in 10000000000s'' = Some ''10000000000''"
    by (simp add: match_delay_def is_digit_def)
  have f: "py_float ''10000000000'' = Some 10000000000"
    by (simp add: py_float_def float_body_def strip_def is_space_def is_digit_def
        nat_of_digits_def digit_val_def)
  have o: "time_sleep (10000000000 + 1) = Some OverflowError"
    by (simp add: time_sleep_def)
  have e: "think time_sleep ''Search cats in Safari'' (Raised ''429 Please retry in 10000000000s'')
           = Inl OverflowError"
    using think_error_sleep_raises [where sleep = time_sleep, OF disjI1 [OF c(3)] g f o] .
  show ?thesis using a b d e by simp
qed

section \<open>The planner: reply parsing\<close>















section \<open>Click entry points: drift correction\<close>

lemma ultra_precise_click_normal:
  assumes "quartz w \<noteq> None" and "\<not> is_spotlight_active w"
  shows "ultra_precise_click w x_ratio y_ratio =
     [IsSpotlightActive, GetMousePosition]
     @ move_effects (fst (pointer w 0)) (snd (pointer w 0))
         (fst (click_target w x_ratio y_ratio)) (snd (click_target w x_ratio y_ratio))
     @ [Sleep (15 / 100), GetMousePosition]
     @ (if drift_exceeds 5 (pointer w 1) (click_target w x_ratio y_ratio)
        then move_effects (fst (pointer w 1)) (snd (pointer w 1))
               (fst (click_target w x_ratio y_ratio)) (snd (click_target w x_ratio y_ratio))
             @ [Sleep (5 / 100)]
        else [])
     @ [GetMousePosition, LeftMouseDown (fst (pointer w 2)) (snd (pointer w 2)), Sleep (5 / 100),
        LeftMouseUp (fst (pointer w 2)) (snd (pointer w 2))]"
  using assms
  by (simp add: ultra_precise_click_def click_target_def drift_exceeds_def split: prod.split)

lemma double_click_normal:
  assumes "quartz w \<noteq> None"
  shows "double_click w x_ratio y_ratio =
     [GetMousePosition]
     @ move_effects (fst (pointer w 0)) (snd (pointer w 0))
         (fst (click_target w x_ratio y_ratio)) (snd (click_target w x_ratio y_ratio))
     @ [Sleep (2 / 10), GetMousePosition]
     @ (if drift_exceeds 2 (pointer w 1) (click_target w x_ratio y_ratio)
        then move_effects (fst (pointer w 1)) (snd (pointer w 1))
               (fst (click_target w x_ratio y_ratio)) (snd (click_target w x_ratio y_ratio))
             @ [Sleep (1 / 10)]
        else [])
     @ concat (replicate 2
         [LeftMouseDown (fst (click_target w x_ratio y_ratio)) (snd (click_target w x_ratio y_ratio)),
          Sleep (5 / 100),
          LeftMouseUp (fst (click_target w x_ratio y_ratio)) (snd (click_target w x_ratio y_ratio)),
          Sleep (1 / 10)])"
  using assms
  by (simp add: double_click_def click_target_def drift_exceeds_def split: prod.split)

lemma filter_move_effects: "filter is_move (move_effects a b c d) = [SmoothMove a b c d]"
proof -
  have "filter is_move (map (\<lambda>p. MouseMoved (fst p) (snd p)) ps) = []" for ps
    by (induction ps) simp_all
  then show ?thesis by (simp add: move_effects_def)
qed

text \<open>
  Either entry point calls the motion controller once before the position is queried
  again, and once more when the drift exceeds its tolerance: one or two calls, never a
  loop.
\<close>

lemma ultra_precise_click_moves:
  "moves (ultra_precise_click w x_ratio y_ratio)
     = (if quartz w = None \<or> is_spotlight_active w then []
        else SmoothMove (fst (pointer w 0)) (snd (pointer w 0))
               (fst (click_target w x_ratio y_ratio)) (snd (click_target w x_ratio y_ratio))
             # (if drift_exceeds 5 (pointer w 1) (click_target w x_ratio y_ratio)
                then [SmoothMove (fst (pointer w 1)) (snd (pointer w 1))
                        (fst (click_target w x_ratio y_ratio))
                        (snd (click_target w x_ratio y_ratio))]
                else []))"
proof (cases "quartz w = None \<or> is_spotlight_active w")
  case True
  then show ?thesis by (auto simp add: ultra_precise_click_def moves_def)
next
  case False
  then show ?thesis
    by (simp add: ultra_precise_click_normal moves_def filter_move_effects)
qed

lemma double_click_moves:
  "moves (double_click w x_ratio y_ratio)
     = (if quartz w = None then []
        else SmoothMove (fst (pointer w 0)) (snd (pointer w 0))
               (fst (click_target w x_ratio y_ratio)) (snd (click_target w x_ratio y_ratio))
             # (if drift_exceeds 2 (pointer w 1) (click_target w x_ratio y_ratio)
                then [SmoothMove (fst (pointer w 1)) (snd (pointer w 1))
                        (fst (click_target w x_ratio y_ratio))
                        (snd (click_target w x_ratio y_ratio))]
                else []))"
proof (cases "quartz w = None")
  case True
  then show ?thesis by (simp add: double_click_def moves_def)
next
  case False
  then show ?thesis
    by (simp add: double_click_normal moves_def filter_move_effects numeral_2_eq_2)
qed

text \<open>
  The corrective call of a single click always posts move events: a drift above 5 on an
  axis is a distance of at least 6.
\<close>

lemma single_click_correction_posts:
  assumes "drift_exceeds 5 a b"
  shows "smooth_move_mouse True (fst a) (snd a) (fst b) (snd b) \<noteq> []"
proof -
  have sq: "36 \<le> d\<^sup>2" if "5 < \<bar>d\<bar>" for d :: int
  proof -
    have "6 \<le> \<bar>d\<bar>" using that by simp
    then have "6 * 6 \<le> \<bar>d\<bar> * \<bar>d\<bar>" by (intro mult_mono) simp_all
    then show ?thesis by (simp add: power2_eq_square)
  qed
  have "5 < \<bar>fst b - fst a\<bar> \<or> 5 < \<bar>snd b - snd a\<bar>"
    using assms by (simp add: drift_exceeds_def abs_minus_commute)
  then have "25 \<le> (fst b - fst a)\<^sup>2 + (snd b - snd a)\<^sup>2"
    using sq [of "fst b - fst a"] sq [of "snd b - snd a"]
      zero_le_power2 [of "fst b - fst a"] zero_le_power2 [of "snd b - snd a"]
    by linarith
  then have "\<not> distance (fst a) (snd a) (fst b) (snd b) < 5"
    by (simp add: distance_less_5_iff)
  then show ?thesis
    by (simp add: smooth_move_mouse_def Let_def)
qed

lemma centre_target:
  "transform_coords (Some \<lparr>bounds_width = 1920, bounds_height = 1080, mode = None\<rparr>) (1 / 2) (1 / 2)
   = (960, 540)"
  by (simp add: transform_coords_def get_screen_info_def clamp_ratio_def py_int_def
      py_round_half_959 py_round_half_539)

lemma no_offset: "calibrate_click_position Map.empty x y = (x, y)"
  by (simp add: calibrate_click_position_def getenv_def py_float_zero py_int_of_int)




section \<open>Click entry points: the Spotlight check\<close>

lemma spotlight_world_active: "is_spotlight_active spotlight_world"
  by (simp add: is_spotlight_active_def spotlight_world_def strip_def is_space_def)

lemma spotlight_world_target: "click_target spotlight_world (1 / 2) (1 / 2) = (960, 540)"
  by (simp add: click_target_def spotlight_world_def centre_target no_offset)

lemma single_click_substitutes_enter:
  assumes "quartz w \<noteq> None" and "is_spotlight_active w"
  shows "ultra_precise_click w x_ratio y_ratio = [IsSpotlightActive, Hotkey ''return'']"
  using assms by (simp add: ultra_precise_click_def)

lemma double_click_never_asks:
  "IsSpotlightActive \<notin> set (double_click w x_ratio y_ratio)
   \<and> filter is_key (double_click w x_ratio y_ratio) = []"
proof (cases "quartz w = None")
  case True
  then show ?thesis by (simp add: double_click_def)
next
  case False
  have k: "filter is_key (map (\<lambda>p. MouseMoved (fst p) (snd p)) ps) = []" for ps
    by (induction ps) simp_all
  have m: "IsSpotlightActive \<notin> set (move_effects a b c d)
           \<and> filter is_key (move_effects a b c d) = []" for a b c d
    by (auto simp add: move_effects_def k)
  show ?thesis
    using False m by (simp add: double_click_normal numeral_2_eq_2)
qed

text \<open>
  C7. With Spotlight frontmost, a single click asks the detector and presses Return
  instead of clicking. A double click in the same world does not ask the detector and
  posts its four mouse-button events: the claim holds for the single click only.
\<close>

theorem double_click_under_spotlight:
  "is_spotlight_active spotlight_world
   \<and> ultra_precise_click spotlight_world (1 / 2) (1 / 2) = [IsSpotlightActive, Hotkey ''return'']
   \<and> double_click spotlight_world (1 / 2) (1 / 2)
       = [GetMousePosition, SmoothMove 960 540 960 540, Sleep (2 / 10), GetMousePosition,
          LeftMouseDown 960 540, Sleep (5 / 100), LeftMouseUp 960 540, Sleep (1 / 10),
          LeftMouseDown 960 540, Sleep (5 / 100), LeftMouseUp 960 540, Sleep (1 / 10)]"
proof -
  have q: "quartz spotlight_world \<noteq> None" by (simp add: spotlight_world_def)
  have p: "pointer spotlight_world k = (960, 540)" for k by (simp add: spotlight_world_def)
  have n: "smooth_move_mouse True 960 540 960 540 = []"
    by (simp add: smooth_move_mouse_def distance_less_5_iff)
  have d: "double_click spotlight_world (1 / 2) (1 / 2)
       = [GetMousePosition, SmoothMove 960 540 960 540, Sleep (2 / 10), GetMousePosition,
          LeftMouseDown 960 540, Sleep (5 / 100), LeftMouseUp 960 540, Sleep (1 / 10),
          LeftMouseDown 960 540, Sleep (5 / 100), LeftMouseUp 960 540, Sleep (1 / 10)]"
    by (simp add: double_click_normal [OF q] spotlight_world_target p drift_exceeds_def
        move_effects_def n numeral_2_eq_2)
  show ?thesis
    using spotlight_world_active single_click_substitutes_enter [OF q spotlight_world_active] d
    by simp
qed

section \<open>The calibration store\<close>

lemma digit_char_facts:
  assumes "d < 10"
  shows "digit_val (digit_char d) = d \<and> is_digit (digit_char d)"
proof -
  have "d \<in> {0, 1, 2, 3, 4, 5, 6, 7, 8, 9}" using assms by auto
  then show ?thesis
    by (auto simp add: digit_char_def digit_val_def is_digit_def)
qed

lemma nat_of_digits_snoc: "nat_of_digits (ds @ [c]) = 10 * nat_of_digits ds + digit_val c"
  by (simp add: nat_of_digits_def)

lemma digits_of_value: "nat_of_digits (digits_of n) = n"
proof (induction n rule: digits_of.induct)
  case (1 n)
  show ?case
  proof (cases "n < 10")
    case True
    then show ?thesis
      using digit_char_facts [of n]
      by (subst digits_of.simps) (simp add: nat_of_digits_def)
  next
    case False
    then have "nat_of_digits (digits_of (n div 10)) = n div 10" using "1.IH" by simp
    then show ?thesis
      using False digit_char_facts [of "n mod 10"]
      by (subst digits_of.simps) (simp add: nat_of_digits_snoc)
  qed
qed

lemma digits_of_digits: "digits_of n \<noteq> [] \<and> list_all is_digit (digits_of n)"
proof (induction n rule: digits_of.induct)
  case (1 n)
  show ?case
  proof (cases "n < 10")
    case True
    then show ?thesis
      using digit_char_facts [of n] by (subst (1 2) digits_of.simps) simp
  next
    case False
    then have "list_all is_digit (digits_of (n div 10))" using "1.IH" by simp
    then show ?thesis
      using False digit_char_facts [of "n mod 10"] by (subst (1 2) digits_of.simps) simp
  qed
qed

lemma py_float_str_int: "py_float (str_int i) = Some (real_of_int i)"
proof (cases "i < 0")
  case False
  then show ?thesis
    using py_float_digits [of "digits_of (nat i)"] digits_of_digits [of "nat i"]
    by (simp add: str_int_def digits_of_value)
next
  case True
  let ?ds = "digits_of (nat (- i))"
  have d: "?ds \<noteq> []" "list_all is_digit ?ds" using digits_of_digits by simp_all
  then have "is_digit (last ?ds)" by (simp add: list_all_iff)
  then have "\<not> is_space (last (CHR ''-'' # ?ds))"
    using d(1) by (simp add: digit_not_space)
  moreover have "\<not> is_space (CHR ''-'')" by (simp add: is_space_def)
  ultimately have "strip (CHR ''-'' # ?ds) = CHR ''-'' # ?ds"
    by (intro strip_id) simp_all
  then have "py_float (CHR ''-'' # ?ds) = map_option uminus (float_body ?ds)"
    by (simp add: py_float_def)
  also have "\<dots> = Some (- real (nat (- i)))"
    using float_body_digits [OF d] by (simp add: digits_of_value)
  finally show ?thesis using True by (simp add: str_int_def)
qed

lemma str_int_last: "str_int i \<noteq> [] \<and> \<not> is_space (last (str_int i))"
proof -
  have "is_digit (last (digits_of n))" for n
    using digits_of_digits [of n] by (simp add: list_all_iff)
  then show ?thesis
    using digits_of_digits by (simp add: str_int_def digit_not_space)
qed

lemma set_or_replace_keeps:
  assumes "\<And>l. binds key l \<Longrightarrow> \<not> Q l" and "\<not> Q (key @ ''='' @ v)"
  shows "filter Q (set_or_replace lines key v) = filter Q lines"
proof (induction lines)
  case Nil
  show ?case using assms(2) by simp
next
  case (Cons l ls)
  show ?case
  proof (cases "binds key l")
    case True
    then show ?thesis using assms by (simp add: binds_def)
  next
    case False
    then show ?thesis using Cons.IH by (simp add: binds_def)
  qed
qed

lemma set_or_replace_binding:
  assumes "binds key (key @ ''='' @ v)"
  shows "filter (binds key) (set_or_replace lines key v)
         = (key @ ''='' @ v) # tl (filter (binds key) lines)"
proof (induction lines)
  case Nil
  show ?case using assms by simp
next
  case (Cons l ls)
  show ?case
  proof (cases "binds key l")
    case True
    then show ?thesis using assms by (simp add: binds_def)
  next
    case False
    then show ?thesis using Cons.IH by (simp add: binds_def)
  qed
qed

lemma offset_line_strip:
  assumes "key \<noteq> []" and "\<not> is_space (hd key)"
  shows "strip (key @ ''='' @ str_int i) = key @ ''='' @ str_int i"
proof -
  have "last (key @ ''='' @ str_int i) = last (str_int i)"
    using str_int_last [of i] by simp
  then show ?thesis
    using assms str_int_last [of i] by (intro strip_id) simp_all
qed

lemma dotenv_values_single:
  assumes "filter (binds key) lines = [key @ ''='' @ v]" and "strip (key @ ''='' @ v) = key @ ''='' @ v"
  shows "dotenv_values lines key = Some v"
proof -
  have "filter (\<lambda>l. startswith (strip l) (key @ ''='')) lines = [key @ ''='' @ v]"
    using assms(1) by (simp add: binds_def [abs_def])
  moreover have "strip (key @ CHR ''='' # v) = key @ CHR ''='' # v"
    using assms(2) by simp
  ultimately show ?thesis by (simp add: dotenv_values_def)
qed

lemma x_not_y: "binds ''HARVEY_X_OFFSET'' l \<Longrightarrow> \<not> binds ''HARVEY_Y_OFFSET'' l"
  by (auto simp add: binds_def startswith_iff)

lemma y_not_x: "binds ''HARVEY_Y_OFFSET'' l \<Longrightarrow> \<not> binds ''HARVEY_X_OFFSET'' l"
  by (auto simp add: binds_def startswith_iff)

lemma binds_own: "binds ''HARVEY_X_OFFSET'' (''HARVEY_X_OFFSET'' @ ''='' @ str_int i)"
  "binds ''HARVEY_Y_OFFSET'' (''HARVEY_Y_OFFSET'' @ ''='' @ str_int i)"
  using offset_line_strip [of "''HARVEY_X_OFFSET''" i] offset_line_strip [of "''HARVEY_Y_OFFSET''" i]
  by (simp_all add: binds_def is_space_def)


lemma saved_bindings:
  assumes "length (filter (binds ''HARVEY_X_OFFSET'') lines) \<le> 1"
    and "length (filter (binds ''HARVEY_Y_OFFSET'') lines) \<le> 1"
  shows "filter (binds ''HARVEY_X_OFFSET'')
           (set_or_replace (set_or_replace lines ''HARVEY_X_OFFSET'' (str_int dx))
              ''HARVEY_Y_OFFSET'' (str_int dy))
         = [''HARVEY_X_OFFSET'' @ ''='' @ str_int dx]"
    and "filter (binds ''HARVEY_Y_OFFSET'')
           (set_or_replace (set_or_replace lines ''HARVEY_X_OFFSET'' (str_int dx))
              ''HARVEY_Y_OFFSET'' (str_int dy))
         = [''HARVEY_Y_OFFSET'' @ ''='' @ str_int dy]"
proof -
  let ?l1 = "set_or_replace lines ''HARVEY_X_OFFSET'' (str_int dx)"
  have tl_nil: "tl xs = []" if "length xs \<le> 1" for xs :: "string list"
    using that by (cases xs) simp_all
  have "filter (binds ''HARVEY_X_OFFSET'') ?l1
        = (''HARVEY_X_OFFSET'' @ ''='' @ str_int dx) # tl (filter (binds ''HARVEY_X_OFFSET'') lines)"
    using binds_own(1) by (rule set_or_replace_binding)
  then have x1: "filter (binds ''HARVEY_X_OFFSET'') ?l1 = [''HARVEY_X_OFFSET'' @ ''='' @ str_int dx]"
    using tl_nil [OF assms(1)] by simp
  have "filter (binds ''HARVEY_X_OFFSET'') (set_or_replace ?l1 ''HARVEY_Y_OFFSET'' (str_int dy))
        = filter (binds ''HARVEY_X_OFFSET'') ?l1"
    using y_not_x binds_own(2) by (intro set_or_replace_keeps) blast+
  then show "filter (binds ''HARVEY_X_OFFSET'') (set_or_replace ?l1 ''HARVEY_Y_OFFSET'' (str_int dy))
         = [''HARVEY_X_OFFSET'' @ ''='' @ str_int dx]"
    using x1 by simp
  have "filter (binds ''HARVEY_Y_OFFSET'') ?l1 = filter (binds ''HARVEY_Y_OFFSET'') lines"
    using x_not_y binds_own(1) by (intro set_or_replace_keeps) blast+
  then have y1: "length (filter (binds ''HARVEY_Y_OFFSET'') ?l1) \<le> 1"
    using assms(2) by simp
  have "filter (binds ''HARVEY_Y_OFFSET'') (set_or_replace ?l1 ''HARVEY_Y_OFFSET'' (str_int dy))
        = (''HARVEY_Y_OFFSET'' @ ''='' @ str_int dy) # tl (filter (binds ''HARVEY_Y_OFFSET'') ?l1)"
    using binds_own(2) by (rule set_or_replace_binding)
  then show "filter (binds ''HARVEY_Y_OFFSET'') (set_or_replace ?l1 ''HARVEY_Y_OFFSET'' (str_int dy))
         = [''HARVEY_Y_OFFSET'' @ ''='' @ str_int dy]"
    using tl_nil [OF y1] by simp
qed

lemma saved_unrelated:
  "filter unrelated
     (set_or_replace (set_or_replace lines ''HARVEY_X_OFFSET'' (str_int dx))
        ''HARVEY_Y_OFFSET'' (str_int dy))
   = filter unrelated lines"
proof -
  let ?l1 = "set_or_replace lines ''HARVEY_X_OFFSET'' (str_int dx)"
  have "filter unrelated (set_or_replace ?l1 ''HARVEY_Y_OFFSET'' (str_int dy)) = filter unrelated ?l1"
    using binds_own(2) by (intro set_or_replace_keeps) (simp_all add: unrelated_def)
  also have "\<dots> = filter unrelated lines"
    using binds_own(1) by (intro set_or_replace_keeps) (simp_all add: unrelated_def)
  finally show ?thesis .
qed

lemma py_int_add: "py_int (real_of_int x + real_of_int d) = x + d"
  using py_int_of_int [of "x + d"] by simp

text \<open>
  C9, as the code has it. Saving succeeds when the file can be read and written, and
  every line that is for neither offset key is kept, verbatim and in order. When the
  file has at most one line for each offset key and the process environment does not
  already define the two variables, loading the saved file on the next start-up and
  applying the offsets to a point adds exactly the saved offsets.
\<close>

theorem save_then_load:
  "\<exists>new. write_env_offsets True file dx dy = (True, Some new)
      \<and> filter unrelated new = filter unrelated (file_lines file)
      \<and> (env ''HARVEY_X_OFFSET'' = None \<and> env ''HARVEY_Y_OFFSET'' = None
           \<and> length (filter (binds ''HARVEY_X_OFFSET'') (file_lines file)) \<le> 1
           \<and> length (filter (binds ''HARVEY_Y_OFFSET'') (file_lines file)) \<le> 1
         \<longrightarrow> calibrate_click_position (load_dotenv env (Some new)) x y = (x + dx, y + dy))"
proof -
  let ?new = "set_or_replace (set_or_replace (file_lines file) ''HARVEY_X_OFFSET'' (str_int dx))
                ''HARVEY_Y_OFFSET'' (str_int dy)"
  have w: "write_env_offsets True file dx dy = (True, Some ?new)"
    by (simp add: write_env_offsets_def file_lines_def Let_def)
  have u: "filter unrelated ?new = filter unrelated (file_lines file)"
    by (rule saved_unrelated)
  have l: "calibrate_click_position (load_dotenv env (Some ?new)) x y = (x + dx, y + dy)"
    if h: "env ''HARVEY_X_OFFSET'' = None \<and> env ''HARVEY_Y_OFFSET'' = None
           \<and> length (filter (binds ''HARVEY_X_OFFSET'') (file_lines file)) \<le> 1
           \<and> length (filter (binds ''HARVEY_Y_OFFSET'') (file_lines file)) \<le> 1"
  proof -
    have sx: "strip (''HARVEY_X_OFFSET'' @ ''='' @ str_int dx) = ''HARVEY_X_OFFSET'' @ ''='' @ str_int dx"
      by (intro offset_line_strip) (simp_all add: is_space_def)
    have sy: "strip (''HARVEY_Y_OFFSET'' @ ''='' @ str_int dy) = ''HARVEY_Y_OFFSET'' @ ''='' @ str_int dy"
      by (intro offset_line_strip) (simp_all add: is_space_def)
    have "dotenv_values ?new ''HARVEY_X_OFFSET'' = Some (str_int dx)"
      using saved_bindings(1) [of "file_lines file" dx dy] h sx
      by (intro dotenv_values_single) simp_all
    then have gx: "getenv (load_dotenv env (Some ?new)) ''HARVEY_X_OFFSET'' ''0'' = str_int dx"
      using h by (simp add: getenv_def load_dotenv_def)
    have "dotenv_values ?new ''HARVEY_Y_OFFSET'' = Some (str_int dy)"
      using saved_bindings(2) [of "file_lines file" dx dy] h sy
      by (intro dotenv_values_single) simp_all
    then have gy: "getenv (load_dotenv env (Some ?new)) ''HARVEY_Y_OFFSET'' ''0'' = str_int dy"
      using h by (simp add: getenv_def load_dotenv_def)
    show ?thesis
      by (simp only: calibrate_click_position_def gx gy py_float_str_int Let_def option.case
          fst_conv snd_conv py_int_add)
  qed
  show ?thesis using w u l by blast
qed


lemma str_int_examples: "str_int 5 = ''5''" "str_int 7 = ''7''" "str_int (- 7) = ''-7''"
  by (simp_all add: str_int_def digits_of.simps digit_char_def)

lemma strip_offset_examples:
  "strip ''HARVEY_X_OFFSET=1'' = ''HARVEY_X_OFFSET=1''"
  "strip ''HARVEY_X_OFFSET=2'' = ''HARVEY_X_OFFSET=2''"
  "strip ''HARVEY_X_OFFSET=5'' = ''HARVEY_X_OFFSET=5''"
  "strip ''HARVEY_Y_OFFSET=7'' = ''HARVEY_Y_OFFSET=7''"
  "strip ''HARVEY_Y_OFFSET=-7'' = ''HARVEY_Y_OFFSET=-7''"
  "strip ''API_KEY=abc'' = ''API_KEY=abc''"
  "strip ''2'' = ''2''" "strip ''7'' = ''7''"
  by (simp_all add: strip_def is_space_def)

lemma py_float_examples: "py_float ''2'' = Some 2" "py_float ''7'' = Some 7"
  by (simp_all add: py_float_def float_body_def strip_offset_examples is_digit_def
      nat_of_digits_def digit_val_def)

text \<open>
  Saving \<open>(5, -7)\<close> into a file with an unrelated key and an old x offset keeps the
  unrelated line, and the point \<open>(100, 100)\<close> is then calibrated to \<open>(105, 93)\<close>.
\<close>

theorem save_then_load_witness:
  "write_env_offsets True (Some [''API_KEY=abc'', ''HARVEY_X_OFFSET=1'']) 5 (- 7)
     = (True, Some [''API_KEY=abc'', ''HARVEY_X_OFFSET=5'', ''HARVEY_Y_OFFSET=-7''])
   \<and> filter unrelated [''API_KEY=abc'', ''HARVEY_X_OFFSET=5'', ''HARVEY_Y_OFFSET=-7'']
     = [''API_KEY=abc'']
   \<and> length (filter (binds ''HARVEY_X_OFFSET'') [''API_KEY=abc'', ''HARVEY_X_OFFSET=1'']) \<le> 1
   \<and> length (filter (binds ''HARVEY_Y_OFFSET'') [''API_KEY=abc'', ''HARVEY_X_OFFSET=1'']) \<le> 1
   \<and> calibrate_click_position
        (load_dotenv Map.empty
           (Some [''API_KEY=abc'', ''HARVEY_X_OFFSET=5'', ''HARVEY_Y_OFFSET=-7''])) 100 100
     = (105, 93)"
proof -
  let ?file = "Some [''API_KEY=abc'', ''HARVEY_X_OFFSET=1'']"
  let ?new = "[''API_KEY=abc'', ''HARVEY_X_OFFSET=5'', ''HARVEY_Y_OFFSET=-7'']"
  have a: "write_env_offsets True ?file 5 (- 7) = (True, Some ?new)"
    by (simp add: write_env_offsets_def str_int_examples strip_offset_examples)
  have u: "filter unrelated ?new = [''API_KEY=abc'']"
    by (simp add: unrelated_def binds_def strip_offset_examples)
  have h: "length (filter (binds ''HARVEY_X_OFFSET'') (file_lines ?file)) \<le> 1
         \<and> length (filter (binds ''HARVEY_Y_OFFSET'') (file_lines ?file)) \<le> 1"
    by (simp add: file_lines_def binds_def strip_offset_examples)
  obtain new where n: "write_env_offsets True ?file 5 (- 7) = (True, Some new)"
    and l: "Map.empty ''HARVEY_X_OFFSET'' = (None :: string option)
              \<and> Map.empty ''HARVEY_Y_OFFSET'' = (None :: string option)
              \<and> length (filter (binds ''HARVEY_X_OFFSET'') (file_lines ?file)) \<le> 1
              \<and> length (filter (binds ''HARVEY_Y_OFFSET'') (file_lines ?file)) \<le> 1
            \<longrightarrow> calibrate_click_position (load_dotenv Map.empty (Some new)) 100 100
                = (100 + 5, 100 + (- 7))"
    using save_then_load [of ?file 5 "- 7" Map.empty 100 100] by blast
  have "new = ?new" using a n by simp
  then have "calibrate_click_position (load_dotenv Map.empty (Some ?new)) 100 100 = (105, 93)"
    using l h by simp
  then show ?thesis using a u h by (simp add: file_lines_def)
qed

text \<open>
  C9 as stated fails: in a file with two lines for the x offset only the first is
  replaced; the second still reads 2, the loader takes the later line, and the offset
  loaded after saving \<open>(5, 7)\<close> is \<open>(2, 7)\<close>.
\<close>

theorem save_then_load_counterexample:
  "write_env_offsets True (Some [''HARVEY_X_OFFSET=1'', ''HARVEY_X_OFFSET=2'']) 5 7
     = (True, Some [''HARVEY_X_OFFSET=5'', ''HARVEY_X_OFFSET=2'', ''HARVEY_Y_OFFSET=7''])
   \<and> calibrate_click_position
        (load_dotenv Map.empty
           (Some [''HARVEY_X_OFFSET=5'', ''HARVEY_X_OFFSET=2'', ''HARVEY_Y_OFFSET=7''])) 0 0
     = (2, 7)"
proof -
  have a: "write_env_offsets True (Some [''HARVEY_X_OFFSET=1'', ''HARVEY_X_OFFSET=2'']) 5 7
     = (True, Some [''HARVEY_X_OFFSET=5'', ''HARVEY_X_OFFSET=2'', ''HARVEY_Y_OFFSET=7''])"
    by (simp add: write_env_offsets_def str_int_examples strip_offset_examples)
  have x: "dotenv_values [''HARVEY_X_OFFSET=5'', ''HARVEY_X_OFFSET=2'', ''HARVEY_Y_OFFSET=7'']
             ''HARVEY_X_OFFSET'' = Some ''2''"
    by (simp add: dotenv_values_def strip_offset_examples)
  have y: "dotenv_values [''HARVEY_X_OFFSET=5'', ''HARVEY_X_OFFSET=2'', ''HARVEY_Y_OFFSET=7'']
             ''HARVEY_Y_OFFSET'' = Some ''7''"
    by (simp add: dotenv_values_def strip_offset_examples)
  have b: "calibrate_click_position
        (load_dotenv Map.empty
           (Some [''HARVEY_X_OFFSET=5'', ''HARVEY_X_OFFSET=2'', ''HARVEY_Y_OFFSET=7''])) 0 0
     = (2, 7)"
    by (simp add: calibrate_click_position_def getenv_def load_dotenv_def x y py_float_examples
        py_int_def)
  show ?thesis using a b by simp
qed

end
